theory Spec2Isabelle
  imports Complex_Main "HOL-Library.Char_ord" "HOL-Library.List_Lexorder"
begin

section \<open>Python strings and the regular expressions of the source\<close>

text \<open>
  A Python string is modelled as a \<^typ>\<open>string\<close>, one \<^typ>\<open>char\<close> per code point: the
  type holds the strings whose code points are below U+0100, and the character tests and
  the case mapping below are Python's on this whole range (\<open>str.isspace\<close>,
  \<open>str.isupper\<close>, \<open>str.lower\<close>, and \<open>\s\<close>, \<open>\d\<close>, \<open>\w\<close> of \<open>re\<close> on \<open>str\<close> patterns).
  On these strings \<open>str.lower\<close> maps every character to one character. The functions
  that do not look at single characters (\<open>find\<close>, \<open>in\<close>, slicing) are stated for lists of
  any element type. Each regular expression of the source is embedded as the
  deterministic matcher it denotes under Python's leftmost, greedy \<open>re\<close> semantics.
\<close>

text \<open>The letters of the classes \<open>[A-Z]\<close> and \<open>[a-z]\<close>, and \<open>[0-9]\<close>, which is also \<open>\d\<close>.\<close>

definition ascii_upper :: "char \<Rightarrow> bool" where
  "ascii_upper c = (CHR ''A'' \<le> c \<and> c \<le> CHR ''Z'')"

definition ascii_lower :: "char \<Rightarrow> bool" where
  "ascii_lower c = (CHR ''a'' \<le> c \<and> c \<le> CHR ''z'')"

definition ascii_alpha :: "char \<Rightarrow> bool" where
  "ascii_alpha c = (ascii_upper c \<or> ascii_lower c)"

definition is_digit :: "char \<Rightarrow> bool" where
  "is_digit c = (CHR ''0'' \<le> c \<and> c \<le> CHR ''9'')"

text \<open>
  Uppercase and lowercase characters as \<open>str.isupper\<close> and \<open>str.islower\<close> see them: the
  ASCII letters, the uppercase letters U+00C0 to U+00DE without the multiplication sign
  U+00D7, and the lowercase characters U+00AA, U+00B5, U+00BA and U+00DF to U+00FF
  without the division sign U+00F7.
\<close>

definition is_upper :: "char \<Rightarrow> bool" where
  "is_upper c = (ascii_upper c \<or> (CHR 0xC0 \<le> c \<and> c \<le> CHR 0xDE \<and> c \<noteq> CHR 0xD7))"

definition is_lower :: "char \<Rightarrow> bool" where
  "is_lower c = (ascii_lower c \<or> c = CHR 0xAA \<or> c = CHR 0xB5 \<or> c = CHR 0xBA \<or>
                 (CHR 0xDF \<le> c \<and> c \<noteq> CHR 0xF7))"

text \<open>
  \<open>str.isspace\<close> and \<open>\s\<close>: TAB, LF, VT, FF, CR, FS, GS, RS, US, the space, the next-line
  control U+0085 and the no-break space U+00A0.
\<close>

definition is_space :: "char \<Rightarrow> bool" where
  "is_space c = (CHR 0x09 \<le> c \<and> c \<le> CHR 0x0D \<or> CHR 0x1C \<le> c \<and> c \<le> CHR 0x20 \<or>
                 c = CHR 0x85 \<or> c = CHR 0xA0)"

text \<open>Every uppercase character of the range has its lowercase partner 32 places up.\<close>

definition lower_char :: "char \<Rightarrow> char" where
  "lower_char c = (if is_upper c then char_of (of_char c + (32::nat)) else c)"

text \<open>\<open>s.lower()\<close>\<close>

definition lower :: "string \<Rightarrow> string" where
  "lower s = map lower_char s"

text \<open>\<open>s.startswith(p)\<close> and \<open>s.endswith(p)\<close>\<close>

fun startswith :: "'a list \<Rightarrow> 'a list \<Rightarrow> bool" where
  "startswith s [] = True"
| "startswith [] (p # ps) = False"
| "startswith (c # cs) (p # ps) = (c = p \<and> startswith cs ps)"

definition endswith :: "'a list \<Rightarrow> 'a list \<Rightarrow> bool" where
  "endswith s p = startswith (rev s) (rev p)"

text \<open>\<open>s.find(sub)\<close>: the lowest index where \<open>sub\<close> starts, \<open>None\<close> for Python's \<open>-1\<close>.\<close>

fun find_from :: "nat \<Rightarrow> 'a list \<Rightarrow> 'a list \<Rightarrow> nat option" where
  "find_from i [] sub = (if sub = [] then Some i else None)"
| "find_from i (c # cs) sub =
     (if startswith (c # cs) sub then Some i else find_from (Suc i) cs sub)"

definition str_find :: "'a list \<Rightarrow> 'a list \<Rightarrow> nat option" where
  "str_find s sub = find_from 0 s sub"

text \<open>\<open>sub in s\<close>\<close>

definition contains :: "'a list \<Rightarrow> 'a list \<Rightarrow> bool" where
  "contains s sub = (str_find s sub \<noteq> None)"

text \<open>\<open>s[a:b]\<close> for non-negative bounds; Python clamps both bounds to the length.\<close>

definition slice :: "'a list \<Rightarrow> nat \<Rightarrow> nat \<Rightarrow> 'a list" where
  "slice s a b = take (b - a) (drop a s)"

text \<open>\<open>s.strip()\<close>\<close>

definition strip :: "string \<Rightarrow> string" where
  "strip s = rev (dropWhile is_space (rev (dropWhile is_space s)))"

text \<open>\<open>sep.join(xs)\<close>\<close>

fun str_join :: "string \<Rightarrow> string list \<Rightarrow> string" where
  "str_join sep [] = []"
| "str_join sep [x] = x"
| "str_join sep (x # y # ys) = x @ sep @ str_join sep (y # ys)"

text \<open>\<open>s.split(sep)\<close> for a one-character separator: empty pieces are kept.\<close>

fun split_from :: "char \<Rightarrow> string \<Rightarrow> string \<Rightarrow> string list" where
  "split_from sep cur [] = [cur]"
| "split_from sep cur (c # cs) =
     (if c = sep then cur # split_from sep [] cs else split_from sep (cur @ [c]) cs)"

definition split_on :: "char \<Rightarrow> string \<Rightarrow> string list" where
  "split_on sep s = split_from sep [] s"

text \<open>
  The maximal non-empty runs of characters satisfying \<open>P\<close>, from left to right. This is
  \<open>re.findall\<close> of a pattern \<open>[class]+\<close>, and \<open>s.split()\<close> when \<open>P\<close> is "not whitespace".
\<close>

fun runs_from :: "(char \<Rightarrow> bool) \<Rightarrow> string \<Rightarrow> string \<Rightarrow> string list" where
  "runs_from P cur [] = (if cur = [] then [] else [cur])"
| "runs_from P cur (c # cs) =
     (if P c then runs_from P (cur @ [c]) cs
      else (if cur = [] then [] else [cur]) @ runs_from P [] cs)"

definition runs :: "(char \<Rightarrow> bool) \<Rightarrow> string \<Rightarrow> string list" where
  "runs P s = runs_from P [] s"

text \<open>
  \<open>re.findall\<close> of \<open>[class]{n,}\<close> with \<open>n \<ge> 1\<close>: the quantifier is greedy, so a match is
  a whole maximal run, and a run shorter than \<open>n\<close> gives no match at any of its positions.
\<close>

definition findall_class_min :: "(char \<Rightarrow> bool) \<Rightarrow> nat \<Rightarrow> string \<Rightarrow> string list" where
  "findall_class_min P n s = filter (\<lambda>r. n \<le> length r) (runs P s)"

text \<open>\<open>s.split()\<close>\<close>

definition split_ws :: "string \<Rightarrow> string list" where
  "split_ws s = runs (\<lambda>c. \<not> is_space c) s"

text \<open>
  \<open>word.isupper()\<close>: at least one cased character and no lowercase one.
\<close>

definition isupper :: "string \<Rightarrow> bool" where
  "isupper w = (list_ex is_upper w \<and> \<not> list_ex is_lower w)"

text \<open>
  \<open>re.search\<close> of a pattern \<open>(.)\<close> followed by literal characters: some character other
  than a newline is directly followed by the literal text.
\<close>

fun search_dot_then :: "string \<Rightarrow> string \<Rightarrow> bool" where
  "search_dot_then lit [] = False"
| "search_dot_then lit (c # cs) =
     ((c \<noteq> CHR 0x0A \<and> startswith cs lit) \<or> search_dot_then lit cs)"

section \<open>Data model (src/app/models.py)\<close>

datatype RiskLevel = low | medium | high

record Finding =
  category :: string
  description :: string
  severity :: RiskLevel
  evidence :: "string list"

record URLInsight =
  url :: string
  reputation :: "string option"
  status :: "string option"
  details :: "string option"
  insight_findings :: "string list"

record EmailAnalysisRequest =
  subject :: string
  body :: string
  sender :: "string option"
  sender_name :: "string option"
  reply_to :: "string option"
  urls :: "string list"
  attachments :: "string list"
  headers :: "string option"

record EmailAnalysisResponse =
  overall_risk :: RiskLevel
  score :: int
  findings :: "Finding list"
  url_insights :: "URLInsight list"
  recommendations :: "string list"


section \<open>What the engine takes from outside\<close>

text \<open>
  Parsed JSON as Python holds it after \<open>response.json()\<close>. Exceptions of the source are
  values of \<open>py_error\<close>; a function that can raise returns \<open>py_error + result\<close>.
\<close>

datatype json =
    JNull
  | JBool bool
  | JInt int
  | JFloat rat
  | JStr string
  | JList "json list"
  | JDict "(string \<times> json) list"

datatype py_error = AttributeError | KeyError | TypeError | JSONDecodeError

text \<open>
  The outcome of \<open>client.get(...)\<close> followed by \<open>response.raise_for_status()\<close>: either an
  \<open>httpx.HTTPError\<close> with its message, or a response, whose body \<open>response.json()\<close> parses
  (\<open>Some\<close>) or rejects with a decoding error (\<open>None\<close>).
\<close>

datatype http_result = HTTPError string | Response "json option"

text \<open>
  The libraries and the process environment the engine reads:
  \<^item> \<open>parseaddr s\<close> is \<open>email.utils.parseaddr(s)[1]\<close>;
  \<^item> \<open>tld_extract u\<close> is \<open>tldextract.extract(u)\<close>, as the pair (domain, suffix);
  \<^item> \<open>sensitive_order\<close> and \<open>urgent_order\<close> are the orders in which this process
    iterates the sets \<open>SENSITIVE_KEYWORDS\<close> and \<open>URGENT_PHRASES\<close> (a Python \<open>set\<close> of
    strings is iterated in hash order, and string hashes are seeded per process);
  \<^item> \<open>api_key\<close> is \<open>os.getenv("URLSCAN_API_KEY")\<close>;
  \<^item> \<open>http_get d\<close> is the outcome of the urlscan query for domain \<open>d\<close>;
  \<^item> \<open>py_str v\<close> is Python's \<open>str(v)\<close>, used by the f-strings.
\<close>

record Env =
  parseaddr :: "string \<Rightarrow> string"
  tld_extract :: "string \<Rightarrow> string \<times> string"
  sensitive_order :: "string list"
  urgent_order :: "string list"
  api_key :: "string option"
  http_get :: "string \<Rightarrow> http_result"
  py_str :: "json \<Rightarrow> string"

section \<open>URL extraction (src/app/detector.py, \<open>URL_REGEX\<close> and \<open>_collect_urls\<close>)\<close>

text \<open>
  \<open>URL_REGEX\<close> is, case-insensitively, a word boundary followed by one of two
  alternatives, tried in this order:
  \<^item> \<open>(?:https?://|www\.)[^\s<>"']+\<close>
  \<^item> \<open>[a-z0-9\-\_]+\.[a-z]{2,}(?:/[^\s<>"']*)?\<close>

  No piece of either alternative can succeed after giving characters back (what a greedy
  class would give back is in the class, never the literal that follows), so each
  alternative is a left-to-right scan.
\<close>

text \<open>
  A word character of \<open>\b\<close> (the class \<open>\w\<close>): the underscore and what \<open>str.isalnum\<close>
  accepts, that is the ASCII letters and digits, U+00AA, U+00B2, U+00B3, U+00B5, U+00B9,
  U+00BA, U+00BC to U+00BE, and U+00C0 to U+00FF without U+00D7 and U+00F7.
\<close>

definition is_word_char :: "char \<Rightarrow> bool" where
  "is_word_char c =
     (ascii_alpha c \<or> is_digit c \<or> c = CHR ''_'' \<or>
      c = CHR 0xAA \<or> c = CHR 0xB2 \<or> c = CHR 0xB3 \<or> c = CHR 0xB5 \<or> c = CHR 0xB9 \<or>
      c = CHR 0xBA \<or> c = CHR 0xBC \<or> c = CHR 0xBD \<or> c = CHR 0xBE \<or>
      (CHR 0xC0 \<le> c \<and> c \<noteq> CHR 0xD7 \<and> c \<noteq> CHR 0xF7))"

text \<open>The class \<open>[^\s<>"']\<close>\<close>

definition url_char :: "char \<Rightarrow> bool" where
  "url_char c =
     (\<not> is_space c \<and> c \<noteq> CHR ''<'' \<and> c \<noteq> CHR ''>'' \<and> c \<noteq> CHR 0x22 \<and> c \<noteq> CHR 0x27)"

text \<open>
  The class \<open>[a-z0-9\-\_]\<close> under \<open>(?i)\<close>; below U+0100 ignoring case adds the uppercase
  ASCII letters and nothing else, here and for the literals \<open>http\<close>, \<open>s\<close> and \<open>www\<close>.
\<close>

definition host_char :: "char \<Rightarrow> bool" where
  "host_char c = (ascii_alpha c \<or> is_digit c \<or> c = CHR ''-'' \<or> c = CHR ''_'')"

text \<open>
  \<open>\b\<close> at the position between the previous character (\<open>None\<close> at the start of the
  text) and the remaining text.
\<close>

definition word_boundary :: "char option \<Rightarrow> string \<Rightarrow> bool" where
  "word_boundary prev rest =
     ((case prev of None \<Rightarrow> False | Some c \<Rightarrow> is_word_char c) \<noteq>
      (case rest of [] \<Rightarrow> False | c # _ \<Rightarrow> is_word_char c))"

definition match_prefixed :: "string \<Rightarrow> string option" where
  "match_prefixed s =
     (let k = (if startswith (lower s) ''https://'' then Some (8::nat)
               else if startswith (lower s) ''http://'' then Some 7
               else if startswith (lower s) ''www.'' then Some 4
               else None)
      in case k of
           None \<Rightarrow> None
         | Some n \<Rightarrow>
             (let rest = takeWhile url_char (drop n s)
              in if rest = [] then None else Some (take n s @ rest)))"

definition match_bare :: "string \<Rightarrow> string option" where
  "match_bare s =
     (let host = takeWhile host_char s;
          r1 = drop (length host) s
      in if host = [] then None
         else (case r1 of
                 [] \<Rightarrow> None
               | c # r2 \<Rightarrow>
                   if c \<noteq> CHR ''.'' then None
                   else (let tld = takeWhile ascii_alpha r2;
                             r3 = drop (length tld) r2
                         in if length tld < 2 then None
                            else (case r3 of
                                    [] \<Rightarrow> Some (host @ ''.'' @ tld)
                                  | d # r4 \<Rightarrow>
                                      if d = CHR ''/''
                                      then Some (host @ ''.'' @ tld @ ''/'' @ takeWhile url_char r4)
                                      else Some (host @ ''.'' @ tld)))))"

text \<open>One match attempt of \<open>URL_REGEX\<close> at a position; the result is the matched text.\<close>

definition match_url_at :: "char option \<Rightarrow> string \<Rightarrow> string option" where
  "match_url_at prev s =
     (if \<not> word_boundary prev s then None
      else (case match_prefixed s of Some m \<Rightarrow> Some m | None \<Rightarrow> match_bare s))"

text \<open>
  \<open>URL_REGEX.findall(text)\<close>: scan from the left; after a match the scan resumes behind
  it (\<open>skip\<close> counts the characters of the last match still to pass). The pattern has one
  group, which spans the whole match, so the list holds the matched texts.
\<close>

fun url_findall_from :: "char option \<Rightarrow> nat \<Rightarrow> string \<Rightarrow> string list" where
  "url_findall_from prev skip [] = []"
| "url_findall_from prev skip (c # cs) =
     (if skip > 0 then url_findall_from (Some c) (skip - 1) cs
      else (case match_url_at prev (c # cs) of
              None \<Rightarrow> url_findall_from (Some c) 0 cs
            | Some m \<Rightarrow> m # url_findall_from (Some c) (length m - 1) cs))"

definition url_findall :: "string \<Rightarrow> string list" where
  "url_findall s = url_findall_from None 0 s"

text \<open>\<open>list(dict.fromkeys(xs))\<close>: the first occurrence of every key, in insertion order.\<close>

definition dict_fromkeys :: "string list \<Rightarrow> string list" where
  "dict_fromkeys xs = foldl (\<lambda>keys x. if x \<in> set keys then keys else keys @ [x]) [] xs"

text \<open>The body of the \<open>for match in matches\<close> loop of \<open>_collect_urls\<close>.\<close>

definition collect_step :: "string list \<Rightarrow> string \<Rightarrow> string list" where
  "collect_step acc m =
     (let u = (if startswith (lower m) ''www.'' then ''https://'' @ m else m)
      in if u \<notin> set acc then acc @ [u] else acc)"

definition collect_urls :: "EmailAnalysisRequest \<Rightarrow> string list" where
  "collect_urls payload =
     (let acc = dict_fromkeys (urls payload);
          matches = url_findall (body payload)
      in foldl collect_step acc matches)"


section \<open>Addresses and domains (src/app/detector.py)\<close>

text \<open>Truthiness of an \<open>Optional[str]\<close>: neither \<open>None\<close> nor the empty string.\<close>

definition truthy_str :: "string option \<Rightarrow> bool" where
  "truthy_str v = (case v of None \<Rightarrow> False | Some s \<Rightarrow> s \<noteq> [])"

definition normalize_email :: "Env \<Rightarrow> string option \<Rightarrow> string option" where
  "normalize_email env email_address =
     (case email_address of
        None \<Rightarrow> None
      | Some a \<Rightarrow>
          if a = [] then None
          else (let parsed = parseaddr env a
                in if parsed \<noteq> [] then Some (lower parsed) else None))"

definition domain_from_email :: "string option \<Rightarrow> string option" where
  "domain_from_email email_address =
     (case email_address of
        None \<Rightarrow> None
      | Some a \<Rightarrow>
          if a = [] \<or> \<not> contains a ''@'' then None
          else Some (strip (lower (last (split_on CHR ''@'' a)))))"

definition domain_from_url :: "Env \<Rightarrow> string \<Rightarrow> string option" where
  "domain_from_url env u =
     (if u = [] then None
      else (case tld_extract env u of
              (dmn, suffix) \<Rightarrow>
                if dmn = [] then None
                else (let parts = (if suffix \<noteq> [] then [dmn, suffix] else [dmn])
                      in Some (lower (str_join ''.'' parts)))))"

text \<open>
  \<open>re.fullmatch(r"(?:\d{1,3}\.){3}\d{1,3}", domain)\<close>: the text is exactly four groups of
  one to three digits separated by three dots, that is, splitting at the dots gives four
  such groups.
\<close>

definition looks_like_ip :: "string \<Rightarrow> bool" where
  "looks_like_ip domain =
     (let groups = split_on CHR ''.'' domain
      in length groups = 4 \<and>
         list_all (\<lambda>g. 1 \<le> length g \<and> length g \<le> 3 \<and> list_all is_digit g) groups)"

text \<open>
  \<open>_has_typosquatting_pattern\<close>. The second test is
  \<open>re.search(r"(.)\\1{2,}", domain.replace(".", ""))\<close>: in the raw string the two
  backslashes are an escaped backslash, so the pattern is one character, a literal
  backslash and then two or more characters \<open>1\<close>.
\<close>

definition suspicious_patterns :: "string list" where
  "suspicious_patterns = [''paypal-secure'', ''micros0ft'', ''app1e'', ''verificati0n'']"

definition has_typosquatting_pattern :: "string \<Rightarrow> bool" where
  "has_typosquatting_pattern domain =
     (if list_ex (\<lambda>pattern. contains domain pattern) suspicious_patterns then True
      else search_dot_then [CHR 0x5C, CHR ''1'', CHR ''1'']
             (filter (\<lambda>c. c \<noteq> CHR ''.'') domain))"

section \<open>Detectors (src/app/detector.py)\<close>

definition URGENT_PHRASES :: "string set" where
  "URGENT_PHRASES = set [''act now'', ''asap'', ''bank verification needed'', ''urgent'',
     ''immediately'', ''limited time'', ''suspend'', ''verify your account'',
     ''password expires'', ''account locked'', ''payment required'']"

definition SENSITIVE_KEYWORDS :: "string set" where
  "SENSITIVE_KEYWORDS = set [''password'', ''passcode'', ''credit card'', ''debit card'',
     ''social security'', ''ssn'', ''account number'', ''pin'', ''verification code'',
     ''bank routing'', ''tax id'']"

text \<open>Only membership of the following sets is used, so they are given as lists.\<close>

definition SUSPICIOUS_ATTACHMENT_EXTENSIONS :: "string list" where
  "SUSPICIOUS_ATTACHMENT_EXTENSIONS = [''.exe'', ''.scr'', ''.bat'', ''.js'', ''.vbs'',
     ''.cmd'', ''.com'', ''.pif'', ''.jar'', ''.cpl'', ''.ps1'']"

definition COMMON_ENGLISH_WORDS :: "string list" where
  "COMMON_ENGLISH_WORDS = [''the'', ''be'', ''to'', ''of'', ''and'', ''a'', ''in'', ''that'',
     ''have'', ''i'', ''it'', ''for'', ''not'', ''on'', ''with'', ''he'', ''as'', ''you'', ''do'',
     ''at'', ''this'', ''but'', ''his'', ''by'', ''from'', ''they'', ''we'', ''say'', ''her'',
     ''she'', ''or'', ''an'', ''will'', ''my'', ''one'', ''all'', ''would'', ''there'',
     ''their'']"

definition COMMON_BIGRAMS :: "(char \<times> char) list" where
  "COMMON_BIGRAMS = [(CHR ''t'', CHR ''h''), (CHR ''h'', CHR ''e''), (CHR ''a'', CHR ''n''),
     (CHR ''e'', CHR ''r''), (CHR ''r'', CHR ''e''), (CHR ''i'', CHR ''n''),
     (CHR ''o'', CHR ''n''), (CHR ''n'', CHR ''d''), (CHR ''e'', CHR ''n''),
     (CHR ''t'', CHR ''o''), (CHR ''e'', CHR ''s''), (CHR ''o'', CHR ''f'')]"

text \<open>
  The environment iterates each of the two sets once, in some order: what the source can
  rely on is that the order lists exactly the members of the set.
\<close>

definition env_ok :: "Env \<Rightarrow> bool" where
  "env_ok env =
     (distinct (sensitive_order env) \<and> set (sensitive_order env) = SENSITIVE_KEYWORDS \<and>
      distinct (urgent_order env) \<and> set (urgent_order env) = URGENT_PHRASES)"

subsection \<open>\<open>_detect_urgency\<close>\<close>

definition detect_urgency :: "Env \<Rightarrow> EmailAnalysisRequest \<Rightarrow> Finding list" where
  "detect_urgency env payload =
     (let txt = lower (subject payload @ [CHR 0x0A] @ body payload);
          ev = filter (\<lambda>phrase. contains txt phrase \<and> length phrase > 3) (urgent_order env);
          excessive_caps =
            length (filter (\<lambda>word. isupper word \<and> length word > 3) (split_ws (body payload)));
          exclamation_runs =
            length (findall_class_min (\<lambda>c. c = CHR ''!'') 2 (body payload));
          dets = [];
          dets = (if ev \<noteq> []
                  then dets @ [''Urgency phrases detected: '' @ str_join '', '' (sort ev)]
                  else dets);
          dets = (if excessive_caps \<ge> 3 then dets @ [''Multiple all-caps words detected.'']
                  else dets);
          dets = (if exclamation_runs \<noteq> 0 then dets @ [''Repeated exclamation marks found.'']
                  else dets)
      in if dets = [] then []
         else [\<lparr>category = ''Urgency Tactics'',
                description = ''Signals of artificial urgency present in subject/body.'',
                severity = (if length dets = 1 then medium else high),
                evidence = dets\<rparr>])"

subsection \<open>\<open>_extract_context\<close> and \<open>_detect_sensitive_requests\<close>\<close>

text \<open>
  \<open>_extract_context\<close>, with the two methods it calls on strings, \<open>str.lower\<close> and
  \<open>str.strip\<close>, as parameters and for any type of characters: the index is looked up in
  the lowered text and the window is cut out of the body itself.
\<close>

definition extract_context_in ::
  "('c list \<Rightarrow> 'c list) \<Rightarrow> ('c list \<Rightarrow> 'c list) \<Rightarrow> 'c list \<Rightarrow> 'c list list \<Rightarrow> nat \<Rightarrow>
   'c list list" where
  "extract_context_in lower_fn strip_fn bdy keywords window =
     (let lowered = lower_fn bdy
      in foldl (\<lambda>snippets keyword.
                  case str_find lowered keyword of
                    None \<Rightarrow> snippets
                  | Some start \<Rightarrow>
                      (let snippet = slice bdy (start - window)
                                       (start + length keyword + window)
                       in snippets @ [strip_fn snippet]))
           [] keywords)"

text \<open>The function on the strings of the model.\<close>

definition extract_context :: "string \<Rightarrow> string list \<Rightarrow> nat \<Rightarrow> string list" where
  "extract_context bdy keywords window = extract_context_in lower strip bdy keywords window"

definition detect_sensitive_requests :: "Env \<Rightarrow> EmailAnalysisRequest \<Rightarrow> Finding list" where
  "detect_sensitive_requests env payload =
     (let txt = lower (body payload);
          hits = filter (\<lambda>kw. contains txt kw) (sensitive_order env)
      in if hits = [] then []
         else (let context_snippets = extract_context (body payload) hits 40
               in [\<lparr>category = ''Sensitive Data Request'',
                     description =
                       ''Email references requests for sensitive or credential information.'',
                     severity = high,
                     evidence = (if context_snippets \<noteq> [] then context_snippets else hits)\<rparr>]))"

subsection \<open>\<open>_detect_sender_anomalies\<close>\<close>

definition reply_to_evidence :: "string \<Rightarrow> string \<Rightarrow> string" where
  "reply_to_evidence sender_domain reply_to_domain =
     ''Sender domain `'' @ sender_domain @ ''` differs from reply-to `'' @ reply_to_domain @ ''`.''"

definition links_evidence :: "string \<Rightarrow> string \<Rightarrow> string" where
  "links_evidence sample sender_domain =
     ''Links point to domains ('' @ sample @ '') that do not match sender domain `'' @
     sender_domain @ ''`.''"

definition detect_sender_anomalies ::
  "Env \<Rightarrow> EmailAnalysisRequest \<Rightarrow> string list \<Rightarrow> Finding list" where
  "detect_sender_anomalies env payload url_list =
     (let sender_email = normalize_email env (sender payload);
          reply_to_email = normalize_email env (reply_to payload);
          sender_domain = (if truthy_str sender_email then domain_from_email sender_email
                           else None);
          reply_to_domain = (if truthy_str reply_to_email then domain_from_email reply_to_email
                             else None);
          ev = [];
          ev = (if truthy_str sender_domain \<and> truthy_str reply_to_domain \<and>
                   sender_domain \<noteq> reply_to_domain
                then ev @ [reply_to_evidence (the sender_domain) (the reply_to_domain)]
                else ev);
          url_domains = set (map (\<lambda>u. the (domain_from_url env u))
                          (filter (\<lambda>u. truthy_str (domain_from_url env u)) url_list));
          ev = (if truthy_str sender_domain \<and> url_domains \<noteq> {} \<and>
                   the sender_domain \<notin> url_domains
                then (let sample = str_join '', '' (take 3 (sorted_list_of_set url_domains))
                      in ev @ [links_evidence sample (the sender_domain)])
                else ev)
      in if ev \<noteq> []
         then [\<lparr>category = ''Sender Domain Mismatch'',
                 description = ''Sender information conflicts with link or reply-to domains.'',
                 severity = (if length ev > 1 then high else medium),
                 evidence = ev\<rparr>]
         else [])"

subsection \<open>\<open>_detect_suspicious_links\<close>\<close>

text \<open>\<open>str(n)\<close> for a natural number, as the f-string prints \<open>len(urls)\<close>.\<close>

fun str_nat :: "nat \<Rightarrow> string" where
  "str_nat n = (if n < 10 then [''0123456789'' ! n]
                else str_nat (n div 10) @ [''0123456789'' ! (n mod 10)])"

declare str_nat.simps [simp del]

text \<open>
  One round of the \<open>for url in urls\<close> loop, on the pair of the two variables the loop
  assigns: \<open>severity\<close> and \<open>evidence\<close>.
\<close>

definition links_step :: "Env \<Rightarrow> RiskLevel \<times> string list \<Rightarrow> string \<Rightarrow> RiskLevel \<times> string list" where
  "links_step env st u =
     (case st of
        (sev, ev) \<Rightarrow>
          (let domain = domain_from_url env u
           in if \<not> truthy_str domain then (sev, ev)
              else (let (sev, ev) =
                          (if looks_like_ip (the domain)
                           then (high, ev @ [''URL `'' @ u @ ''` uses raw IP address.''])
                           else if has_typosquatting_pattern (the domain)
                           then (high, ev @ [''Domain `'' @ the domain @ ''` appears typosquatted.''])
                           else (sev, ev))
                    in if startswith (lower u) ''http://''
                       then (sev, ev @ [''URL `'' @ u @ ''` is not served over HTTPS.''])
                       else (sev, ev))))"

definition detect_suspicious_links ::
  "Env \<Rightarrow> EmailAnalysisRequest \<Rightarrow> string list \<Rightarrow> Finding list" where
  "detect_suspicious_links env payload url_list =
     (if url_list = [] then []
      else (case foldl (links_step env) (medium, []) url_list of
              (sev, ev) \<Rightarrow>
                (let ev = (if length url_list > 5
                           then ev @ [''Email contains a high number of links ('' @
                                      str_nat (length url_list) @ '').'']
                           else ev)
                 in if ev = [] then []
                    else [\<lparr>category = ''Suspicious Links'',
                            description = ''Potentially malicious URLs detected in message body.'',
                            severity = sev,
                            evidence = ev\<rparr>])))"

subsection \<open>\<open>_detect_attachment_risk\<close>\<close>

definition detect_attachment_risk :: "EmailAnalysisRequest \<Rightarrow> Finding list" where
  "detect_attachment_risk payload =
     (if attachments payload = [] then []
      else (let flagged =
                  filter (\<lambda>name. list_ex (\<lambda>ext. endswith (lower name) ext)
                                    SUSPICIOUS_ATTACHMENT_EXTENSIONS)
                    (attachments payload)
            in if flagged = [] then []
               else [\<lparr>category = ''Suspicious Attachments'',
                       description = ''Attachments carry extensions commonly used in malware.'',
                       severity = high,
                       evidence = flagged\<rparr>]))"

subsection \<open>\<open>_estimate_spelling_issues\<close> and \<open>_detect_language_anomalies\<close>\<close>

text \<open>
  \<open>looks_unusual\<close>, the local function of \<open>_estimate_spelling_issues\<close>. Its second
  regular expression is \<open>re.search(r"(.)\\1\\1", token)\<close>: in the raw string each pair of
  backslashes is an escaped backslash, so the pattern is one character followed by the
  four literal characters backslash, \<open>1\<close>, backslash, \<open>1\<close>.
  \<open>math.ceil(len(token) / 3)\<close> is \<open>(len + 2) div 3\<close>.
\<close>

definition looks_unusual :: "string \<Rightarrow> bool" where
  "looks_unusual token0 =
     (let token = lower token0
      in if length token \<le> 3 then False
         else if token \<in> set COMMON_ENGLISH_WORDS then False
         else if list_ex is_digit token then True
         else if search_dot_then [CHR 0x5C, CHR ''1'', CHR 0x5C, CHR ''1''] token then True
         else (let rare_bigrams =
                     length (filter (\<lambda>bigram. bigram \<notin> set COMMON_BIGRAMS)
                                    (zip token (tl token)))
               in rare_bigrams \<ge> max 2 ((length token + 2) div 3)))"

text \<open>
  The quotient is a Python float; it is modelled by the exact rational, which compares
  with the literal \<open>0.2\<close> as the rounded float does for every word count below \<open>2^52\<close>.
\<close>

definition estimate_spelling_issues :: "string list \<Rightarrow> rat" where
  "estimate_spelling_issues words =
     (if words = [] then 0
      else (let unusual_count = length (filter looks_unusual words)
            in of_nat unusual_count / of_nat (length words)))"

definition detect_language_anomalies :: "EmailAnalysisRequest \<Rightarrow> Finding list" where
  "detect_language_anomalies payload =
     (let txt = body payload;
          words = runs (\<lambda>c. ascii_alpha c \<or> c = CHR 0x27) txt
      in if length words < 20 then []
         else (let misspell_indicator = estimate_spelling_issues words;
                   punctuation_runs =
                     length (findall_class_min
                               (\<lambda>c. c = CHR ''?'' \<or> c = CHR ''!'' \<or> c = CHR ''.'') 3 txt);
                   inconsistent_spacing = length (findall_class_min is_space 3 txt);
                   ev = [];
                   ev = (if misspell_indicator > 2 / 10
                         then ev @ [''High ratio of uncommon words detected.''] else ev);
                   ev = (if punctuation_runs \<noteq> 0
                         then ev @ [''Repeated punctuation suggests informal tone.''] else ev);
                   ev = (if inconsistent_spacing \<noteq> 0
                         then ev @ [''Irregular spacing/padding detected within the body.'']
                         else ev)
               in if ev = [] then []
                  else [\<lparr>category = ''Grammar & Style'',
                          description =
                            ''Writing quality indicators suggest potential social engineering.'',
                          severity = (if length ev = 1 then low else medium),
                          evidence = ev\<rparr>]))"

section \<open>Aggregator (src/app/detector.py, \<open>_score_findings\<close> and \<open>_build_recommendations\<close>)\<close>

text \<open>The \<open>weights\<close> dictionary of \<open>_score_findings\<close>; every enum member is a key.\<close>

fun weights :: "RiskLevel \<Rightarrow> int" where
  "weights low = 10"
| "weights medium = 20"
| "weights high = 35"

text \<open>
  \<open>sum(weights[finding.severity] for finding in findings)\<close>: Python's \<open>sum\<close> starts from
  0 and adds the items from left to right; the integers are unbounded.
\<close>

definition sum_weights :: "Finding list \<Rightarrow> int" where
  "sum_weights fs = foldl (\<lambda>acc finding. acc + weights (severity finding)) 0 fs"

definition score_findings :: "Finding list \<Rightarrow> int \<times> RiskLevel" where
  "score_findings fs =
     (let sc = sum_weights fs;
          sc = min 100 sc;
          risk = (if sc \<ge> 60 then high else if sc \<ge> 30 then medium else low)
      in (sc, risk))"

definition rec_report :: string where
  "rec_report = ''Do not interact with the email. Report it to your security team.''"

definition rec_credentials :: string where
  "rec_credentials = ''Never share credentials or personal information via email links.''"

definition rec_hover :: string where
  "rec_hover = ''Hover over links to inspect destinations before clicking.''"

definition rec_verify :: string where
  "rec_verify = ''Verify the sender through a known, trusted communication channel.''"

definition rec_generic :: string where
  "rec_generic = ''Email appears lower risk but remain vigilant.''"

text \<open>
  \<open>_build_recommendations\<close>: four independent \<open>if\<close> statements append to the list in
  declaration order, then the generic caution is appended when the list is still empty.
\<close>

definition build_recommendations :: "RiskLevel \<Rightarrow> Finding list \<Rightarrow> bool \<Rightarrow> string list" where
  "build_recommendations risk fs has_urls =
     (let recs = [];
          recs = (if risk = high then recs @ [rec_report] else recs);
          recs = (if list_ex (\<lambda>f. category f = ''Sensitive Data Request'') fs
                  then recs @ [rec_credentials] else recs);
          recs = (if has_urls then recs @ [rec_hover] else recs);
          recs = (if list_ex (\<lambda>f. category f = ''Sender Domain Mismatch'') fs
                  then recs @ [rec_verify] else recs);
          recs = (if recs = [] then recs @ [rec_generic] else recs)
      in recs)"


section \<open>Reputation lookup (src/app/services/url_reputation.py)\<close>

text \<open>Python truthiness and \<open>== 0\<close> on parsed JSON.\<close>

fun truthy :: "json \<Rightarrow> bool" where
  "truthy JNull = False"
| "truthy (JBool b) = b"
| "truthy (JInt i) = (i \<noteq> 0)"
| "truthy (JFloat r) = (r \<noteq> 0)"
| "truthy (JStr s) = (s \<noteq> [])"
| "truthy (JList xs) = (xs \<noteq> [])"
| "truthy (JDict kvs) = (kvs \<noteq> [])"

fun eq_zero :: "json \<Rightarrow> bool" where
  "eq_zero (JBool b) = (\<not> b)"
| "eq_zero (JInt i) = (i = 0)"
| "eq_zero (JFloat r) = (r = 0)"
| "eq_zero v = False"

text \<open>
  \<open>v.get(key, default)\<close>: only a dictionary has the method, on any other value the
  attribute lookup raises.
\<close>

fun py_get :: "json \<Rightarrow> string \<Rightarrow> json \<Rightarrow> py_error + json" where
  "py_get (JDict kvs) k dflt = (case map_of kvs k of None \<Rightarrow> Inr dflt | Some v \<Rightarrow> Inr v)"
| "py_get v k dflt = Inl AttributeError"

text \<open>
  \<open>results[0]\<close> on a truthy value: the first item of a list, the first character of a
  string, a missing key \<open>0\<close> of a dictionary (JSON keys are strings), and a type error on a
  number or a boolean.
\<close>

fun first_item :: "json \<Rightarrow> py_error + json" where
  "first_item (JList (x # xs)) = Inr x"
| "first_item (JStr (c # cs)) = Inr (JStr [c])"
| "first_item (JDict kvs) = Inl KeyError"
| "first_item v = Inl TypeError"

text \<open>
  \<open>', '.join(categories)\<close> on a truthy value: the items of a list, the characters of a
  string or the keys of a dictionary, all of which must be strings.
\<close>

fun item_str :: "json \<Rightarrow> string option" where
  "item_str (JStr s) = Some s"
| "item_str v = None"

fun join_items :: "json \<Rightarrow> py_error + string" where
  "join_items (JList xs) =
     (if list_all (\<lambda>x. item_str x \<noteq> None) xs
      then Inr (str_join '', '' (map (\<lambda>x. the (item_str x)) xs))
      else Inl TypeError)"
| "join_items (JStr s) = Inr (str_join '', '' (map (\<lambda>c. [c]) s))"
| "join_items (JDict kvs) = Inr (str_join '', '' (map fst kvs))"
| "join_items v = Inl TypeError"

definition bind_err :: "py_error + 'a \<Rightarrow> ('a \<Rightarrow> py_error + 'b) \<Rightarrow> py_error + 'b" where
  "bind_err r f = (case r of Inl e \<Rightarrow> Inl e | Inr v \<Rightarrow> f v)"

definition parse_urlscan_response :: "Env \<Rightarrow> string \<Rightarrow> json \<Rightarrow> py_error + URLInsight" where
  "parse_urlscan_response env u payload =
     bind_err (py_get payload ''total'' (JInt 0)) (\<lambda>total.
       if eq_zero total
       then Inr \<lparr>url = u, reputation = Some ''no-data'', status = Some ''clean'',
                 details = Some ''No prior scans found for this domain.'',
                 insight_findings = []\<rparr>
       else
     bind_err (py_get payload ''results'' (JList [])) (\<lambda>results.
     bind_err (if truthy results then first_item results else Inr (JDict [])) (\<lambda>latest.
     bind_err (py_get latest ''verdicts'' (JDict [])) (\<lambda>verdicts.
     bind_err (py_get verdicts ''overall'' (JDict [])) (\<lambda>overall.
     bind_err (py_get overall ''malicious'' JNull) (\<lambda>malicious.
     bind_err (py_get overall ''score'' JNull) (\<lambda>sc.
     bind_err (py_get overall ''categories'' JNull) (\<lambda>cats.
       (let categories = (if truthy cats then cats else JList []);
            stat = (if truthy malicious then ''malicious'' else ''review'');
            rep = (if truthy malicious then ''block'' else ''suspicious'')
        in bind_err (if truthy categories
                     then bind_err (join_items categories) (\<lambda>j. Inr [''Categories: '' @ j])
                     else Inr []) (\<lambda>fnd.
             (let fnd = (if sc \<noteq> JNull then fnd @ [''Verdict score: '' @ py_str env sc]
                         else fnd)
              in Inr \<lparr>url = u, reputation = Some rep, status = Some stat,
                       details = Some (''Observed in '' @ py_str env total @
                                       '' urlscan submission(s).''),
                       insight_findings = fnd\<rparr>)))))))))))"

text \<open>\<open>_domain_from_url\<close> of the reputation module (it has no test for an empty URL).\<close>

definition rep_domain_from_url :: "Env \<Rightarrow> string \<Rightarrow> string option" where
  "rep_domain_from_url env u =
     (case tld_extract env u of
        (dmn, suffix) \<Rightarrow>
          if dmn = [] then None
          else (let parts = (if suffix \<noteq> [] then [dmn, suffix] else [dmn])
                in Some (lower (str_join ''.'' parts))))"

text \<open>
  The \<open>for url in urls\<close> loop of \<open>lookup_urls\<close>. Only \<open>httpx.HTTPError\<close> is caught, around
  the request; \<open>response.json()\<close> and \<open>_parse_urlscan_response\<close> run outside the \<open>try\<close>, so
  what they raise leaves the loop and the function.
\<close>

fun lookup_loop :: "Env \<Rightarrow> URLInsight list \<Rightarrow> string list \<Rightarrow> py_error + URLInsight list" where
  "lookup_loop env insights [] = Inr insights"
| "lookup_loop env insights (u # us) =
     (let domain = rep_domain_from_url env u
      in if \<not> truthy_str domain
         then lookup_loop env
                (insights @ [\<lparr>url = u, reputation = None, status = Some ''unknown'',
                   details = Some ''Unable to extract domain for reputation check.'',
                   insight_findings = []\<rparr>]) us
         else (case http_get env (the domain) of
                 HTTPError exc \<Rightarrow>
                   lookup_loop env
                     (insights @ [\<lparr>url = u, reputation = None, status = Some ''error'',
                        details = Some (''urlscan lookup failed: '' @ exc),
                        insight_findings = []\<rparr>]) us
               | Response None \<Rightarrow> Inl JSONDecodeError
               | Response (Some payload) \<Rightarrow>
                   (case parse_urlscan_response env u payload of
                      Inl e \<Rightarrow> Inl e
                    | Inr insight \<Rightarrow> lookup_loop env (insights @ [insight]) us)))"

definition lookup_urls :: "Env \<Rightarrow> string list \<Rightarrow> py_error + URLInsight list" where
  "lookup_urls env url_list =
     (if url_list = [] then Inr []
      else if \<not> truthy_str (api_key env)
      then Inr (map (\<lambda>u. \<lparr>url = u, reputation = None, status = Some ''unavailable'',
                  details = Some ''No URLSCAN_API_KEY configured; skipped live reputation lookup.'',
                  insight_findings = []\<rparr>) url_list)
      else lookup_loop env [] url_list)"


section \<open>The analysis (src/app/detector.py, \<open>analyze_email\<close>)\<close>

definition all_findings :: "Env \<Rightarrow> EmailAnalysisRequest \<Rightarrow> Finding list" where
  "all_findings env payload =
     (let url_list = collect_urls payload
      in detect_urgency env payload @
         detect_sensitive_requests env payload @
         detect_sender_anomalies env payload url_list @
         detect_suspicious_links env payload url_list @
         detect_attachment_risk payload @
         detect_language_anomalies payload)"

definition analyze_email :: "Env \<Rightarrow> EmailAnalysisRequest \<Rightarrow> py_error + EmailAnalysisResponse" where
  "analyze_email env payload =
     (let url_list = collect_urls payload;
          fs = all_findings env payload
      in case score_findings fs of
           (sc, risk) \<Rightarrow>
             (case (if url_list \<noteq> [] then lookup_urls env url_list else Inr []) of
                Inl e \<Rightarrow> Inl e
              | Inr insights \<Rightarrow>
                  Inr \<lparr>overall_risk = risk, score = sc, findings = fs,
                       url_insights = insights,
                       recommendations = build_recommendations risk fs (url_list \<noteq> [])\<rparr>))"


section \<open>The standalone engine (src/phishing_detector.py, \<open>PhishingDetector._analyze_sender\<close>)\<close>

definition SUSPICIOUS_TLDS :: "string list" where
  "SUSPICIOUS_TLDS = [''.xyz'', ''.top'', ''.work'', ''.click'', ''.link'', ''.download'',
     ''.gq'', ''.tk'', ''.ml'']"

text \<open>A Python \<open>dict\<close> is iterated in insertion order.\<close>

definition LEGITIMATE_DOMAINS :: "(string \<times> string list) list" where
  "LEGITIMATE_DOMAINS =
     [(''paypal'', [''paypal.com'']),
      (''amazon'', [''amazon.com'']),
      (''microsoft'', [''microsoft.com'', ''outlook.com'', ''live.com'']),
      (''apple'', [''apple.com'', ''icloud.com'']),
      (''google'', [''google.com'', ''gmail.com'']),
      (''bank'', [''bankofamerica.com'', ''chase.com'', ''wellsfargo.com'', ''citibank.com''])]"

definition common_misspellings :: "string list" where
  "common_misspellings = [''g00gle'', ''micros0ft'', ''amazn'', ''paypa1'']"

text \<open>The dictionary \<open>_analyze_sender\<close> returns; a key that a branch leaves out is \<open>None\<close>.\<close>

record SenderAnalysis =
  detected :: bool
  issues :: "string list option"
  domain_key :: "string option"
  severity_key :: "string option"

text \<open>\<open>sender.split('@', 1)[1]\<close> for a sender that contains \<open>@\<close>.\<close>

definition after_first_at :: "string \<Rightarrow> string" where
  "after_first_at s = tl (dropWhile (\<lambda>c. c \<noteq> CHR ''@'') s)"

text \<open>\<open>re.search(r'\d{3,}', domain)\<close>: some run of digits has length three or more.\<close>

definition has_digit_run :: "string \<Rightarrow> bool" where
  "has_digit_run s = (findall_class_min is_digit 3 s \<noteq> [])"

definition sender_issues :: "Env \<Rightarrow> string \<Rightarrow> string list" where
  "sender_issues env domain =
     (let iss = [];
          suffix = snd (tld_extract env domain);
          tld = (if suffix \<noteq> [] then ''.'' @ suffix else []);
          iss = (if tld \<in> set SUSPICIOUS_TLDS then iss @ [''Suspicious TLD: '' @ tld] else iss);
          iss = foldl (\<lambda>iss (company, legitimate_domains).
                         if contains domain company \<and>
                            \<not> list_ex (\<lambda>legit. contains domain legit) legitimate_domains
                         then iss @ [''Possible '' @ company @ '' domain spoofing'']
                         else iss)
                  iss LEGITIMATE_DOMAINS;
          iss = (if count_list domain CHR ''.'' > 3
                 then iss @ [''Excessive subdomains (possible obfuscation)''] else iss);
          iss = (if has_digit_run domain
                 then iss @ [''Domain contains multiple numbers''] else iss);
          iss = (if list_ex (\<lambda>misspell. contains domain misspell) common_misspellings
                 then iss @ [''Likely domain name misspelling''] else iss)
      in iss)"

definition analyze_sender :: "Env \<Rightarrow> string \<Rightarrow> SenderAnalysis" where
  "analyze_sender env sndr =
     (if sndr = []
      then \<lparr>detected = False, issues = None, domain_key = None, severity_key = None\<rparr>
      else if \<not> contains sndr ''@''
      then \<lparr>detected = True, issues = Some [''Invalid email format''], domain_key = None,
             severity_key = Some ''high''\<rparr>
      else (let domain = after_first_at sndr;
                iss = sender_issues env domain
            in \<lparr>detected = (length iss > 0), issues = Some iss, domain_key = Some domain,
                 severity_key = Some (if length iss \<ge> 2 then ''high''
                                      else if length iss = 1 then ''medium'' else ''low'')\<rparr>))"

section \<open>Notions of the specification\<close>

text \<open>The number of findings of one severity.\<close>

definition count_sev :: "RiskLevel \<Rightarrow> Finding list \<Rightarrow> int" where
  "count_sev s fs = int (length (filter (\<lambda>f. severity f = s) fs))"

text \<open>
  The order-preserving deduplication: every element stays at its first occurrence and
  its later occurrences are dropped.
\<close>

fun first_occurrences :: "'a list \<Rightarrow> 'a list" where
  "first_occurrences [] = []"
| "first_occurrences (x # xs) = x # filter (\<lambda>y. y \<noteq> x) (first_occurrences xs)"

text \<open>A body match that begins with \<open>www.\<close> gets \<open>https://\<close> in front.\<close>

definition canonical_match :: "string \<Rightarrow> string" where
  "canonical_match m = (if startswith (lower m) ''www.'' then ''https://'' @ m else m)"

text \<open>Three or more consecutive identical characters somewhere in the text.\<close>

fun has_repeat3 :: "string \<Rightarrow> bool" where
  "has_repeat3 (a # b # c # cs) = ((a = b \<and> b = c) \<or> has_repeat3 (b # c # cs))"
| "has_repeat3 cs = False"

text \<open>
  The unusual-token test as the specification words it, with the run of three identical
  characters as one of the three ways for a token to be unusual.
\<close>

definition unusual_token_spec :: "string \<Rightarrow> bool" where
  "unusual_token_spec token0 =
     (let token = lower token0
      in length token > 3 \<and> token \<notin> set COMMON_ENGLISH_WORDS \<and>
         (list_ex is_digit token \<or> has_repeat3 token \<or>
          length (filter (\<lambda>bigram. bigram \<notin> set COMMON_BIGRAMS) (zip token (tl token)))
            \<ge> max 2 ((length token + 2) div 3)))"

text \<open>
  A URL contributes IP-literal or typosquat evidence when its domain resolves and is an
  IPv4 literal or matches the typosquatting test; \<open>high_evidence\<close> is the evidence string
  the loop then records for it.
\<close>

definition escalates :: "Env \<Rightarrow> string \<Rightarrow> bool" where
  "escalates env u =
     (case domain_from_url env u of
        None \<Rightarrow> False
      | Some d \<Rightarrow> d \<noteq> [] \<and> (looks_like_ip d \<or> has_typosquatting_pattern d))"

definition high_evidence :: "Env \<Rightarrow> string \<Rightarrow> string" where
  "high_evidence env u =
     (case domain_from_url env u of
        None \<Rightarrow> []
      | Some d \<Rightarrow> if looks_like_ip d then ''URL `'' @ u @ ''` uses raw IP address.''
                  else ''Domain `'' @ d @ ''` appears typosquatted.'')"

text \<open>Index \<open>i\<close> is where \<open>sub\<close> first occurs in \<open>s\<close>.\<close>

definition first_occurrence_at :: "string \<Rightarrow> string \<Rightarrow> nat \<Rightarrow> bool" where
  "first_occurrence_at s sub i =
     (i \<le> length s \<and> startswith (drop i s) sub \<and> (\<forall>j<i. \<not> startswith (drop j s) sub))"

text \<open>
  The context snippet of the specification: the window of 40 characters on each side of
  the occurrence of the keyword at index \<open>i\<close>, trimmed.
\<close>

definition snippet_at :: "string \<Rightarrow> string \<Rightarrow> nat \<Rightarrow> string" where
  "snippet_at bdy kw i = strip (slice bdy (i - 40) (i + length kw + 40))"

text \<open>The domain of the normalised sender address, as the detector computes it.\<close>

definition sender_domain_of :: "Env \<Rightarrow> EmailAnalysisRequest \<Rightarrow> string option" where
  "sender_domain_of env p =
     (if truthy_str (normalize_email env (sender p))
      then domain_from_email (normalize_email env (sender p)) else None)"

text \<open>The top-level domain, with its dot, that \<open>_analyze_sender\<close> tests against the blocklist.\<close>

definition tld_of :: "Env \<Rightarrow> string \<Rightarrow> string" where
  "tld_of env d = (if snd (tld_extract env d) \<noteq> [] then ''.'' @ snd (tld_extract env d) else [])"

section \<open>A concrete environment for the examples\<close>

text \<open>
  The answers of \<open>tldextract\<close> for the URLs used in the examples below, plain addresses
  for \<open>parseaddr\<close>, one iteration order for each of the two sets, and no API key.
\<close>

definition example_tld :: "string \<Rightarrow> string \<times> string" where
  "example_tld u =
     (if u = ''http://10.0.0.1/a'' then (''10.0.0.1'', [])
      else if u = ''https://example.com/x'' then (''example'', ''com'')
      else if u = ''http://example.com/y'' then (''example'', ''com'')
      else if u = ''paypa1-alert.xyz'' then (''paypa1-alert'', ''xyz'')
      else ([], []))"

fun example_str :: "json \<Rightarrow> string" where
  "example_str (JInt i) = (if i < 0 then ''-'' @ str_nat (nat (- i)) else str_nat (nat i))"
| "example_str (JStr s) = s"
| "example_str v = ''?''"

definition example_env :: Env where
  "example_env =
     \<lparr>parseaddr = (\<lambda>s. s),
      tld_extract = example_tld,
      sensitive_order = [''password'', ''passcode'', ''credit card'', ''debit card'',
        ''social security'', ''ssn'', ''account number'', ''pin'', ''verification code'',
        ''bank routing'', ''tax id''],
      urgent_order = [''act now'', ''asap'', ''bank verification needed'', ''urgent'',
        ''immediately'', ''limited time'', ''suspend'', ''verify your account'',
        ''password expires'', ''account locked'', ''payment required''],
      api_key = None,
      http_get = (\<lambda>d. HTTPError ''timed out''),
      py_str = example_str\<rparr>"

text \<open>
  The same environment in a process that iterates \<open>SENSITIVE_KEYWORDS\<close> in another order.
\<close>

definition reordered_env :: Env where
  "reordered_env = example_env\<lparr>sensitive_order := rev (sensitive_order example_env)\<rparr>"

text \<open>
  The same environment with an API key configured and a service (or a proxy in front of
  it) that answers every query with status 200 and a body that is not JSON.
\<close>

definition not_json_env :: Env where
  "not_json_env = example_env\<lparr>api_key := Some ''key'', http_get := (\<lambda>d. Response None)\<rparr>"

text \<open>The same with a service that fails one query with an HTTP error and answers the others.\<close>

definition flaky_env :: Env where
  "flaky_env = example_env\<lparr>api_key := Some ''key'',
     http_get := (\<lambda>d. if d = ''10.0.0.1'' then HTTPError ''timed out''
                       else Response (Some (JDict [(''total'', JInt 0)])))\<rparr>"

text \<open>
  A text beyond U+00FF, as the list of its code points: 50 times the capital I with dot
  above, U+0130, then \<open> password\<close>; and what \<open>str.lower\<close> makes of it, each U+0130
  replaced by the two code points U+0069 U+0307.
\<close>

definition code_points :: "string \<Rightarrow> nat list" where
  "code_points s = map of_char s"

definition dotted_I_body :: "nat list" where
  "dotted_I_body = replicate 50 0x130 @ code_points '' password''"

definition dotted_I_lowered :: "nat list" where
  "dotted_I_lowered = concat (replicate 50 [0x69, 0x307]) @ code_points '' password''"

section \<open>Properties of the aggregator\<close>

lemma foldl_weights_shift:
  "foldl (\<lambda>acc finding. acc + weights (severity finding)) a fs =
   a + foldl (\<lambda>acc finding. acc + weights (severity finding)) 0 fs"
proof (induction fs arbitrary: a)
  case Nil
  show ?case by simp
next
  case (Cons f fs)
  have "foldl (\<lambda>acc finding. acc + weights (severity finding)) a (f # fs) =
        foldl (\<lambda>acc finding. acc + weights (severity finding)) (a + weights (severity f)) fs"
    by simp
  also have "\<dots> = (a + weights (severity f)) +
        foldl (\<lambda>acc finding. acc + weights (severity finding)) 0 fs"
    by (rule Cons.IH)
  also have "\<dots> = a + foldl (\<lambda>acc finding. acc + weights (severity finding))
        (0 + weights (severity f)) fs"
    using Cons.IH [of "0 + weights (severity f)"] by simp
  finally show ?case by simp
qed

lemma sum_weights_Nil: "sum_weights [] = 0"
  by (simp add: sum_weights_def)

lemma sum_weights_Cons: "sum_weights (f # fs) = weights (severity f) + sum_weights fs"
  unfolding sum_weights_def
  using foldl_weights_shift [of "weights (severity f)" fs] by simp

lemma sum_weights_count:
  "sum_weights fs = 10 * count_sev low fs + 20 * count_sev medium fs + 35 * count_sev high fs"
proof (induction fs)
  case Nil
  show ?case by (simp add: sum_weights_Nil count_sev_def)
next
  case (Cons f fs)
  show ?case
    using Cons.IH
    by (cases "severity f") (simp_all add: sum_weights_Cons count_sev_def)
qed

lemma sum_weights_nonneg: "0 \<le> sum_weights fs"
  unfolding sum_weights_count count_sev_def by simp

text \<open>
  C1. For every list of findings the score is the sum of the severity weights
  (10 per low, 20 per medium, 35 per high finding) capped at 100, an empty list scores 0,
  the score lies between 0 and 100, and the risk level is read off the score alone:
  high from 60, medium from 30, low below.
\<close>

theorem C1_score_findings:
  "fst (score_findings fs) =
     min 100 (10 * count_sev low fs + 20 * count_sev medium fs + 35 * count_sev high fs)
   \<and> 0 \<le> fst (score_findings fs) \<and> fst (score_findings fs) \<le> 100
   \<and> snd (score_findings fs) =
       (if fst (score_findings fs) \<ge> 60 then high
        else if fst (score_findings fs) \<ge> 30 then medium else low)
   \<and> fst (score_findings []) = 0"
proof -
  have a: "fst (score_findings fs) = min 100 (sum_weights fs)"
    by (simp add: score_findings_def Let_def)
  have b: "snd (score_findings fs) =
       (if min 100 (sum_weights fs) \<ge> 60 then high
        else if min 100 (sum_weights fs) \<ge> 30 then medium else low)"
    by (simp add: score_findings_def Let_def)
  have c: "fst (score_findings []) = 0"
    by (simp add: score_findings_def Let_def sum_weights_Nil)
  have d: "0 \<le> min 100 (sum_weights fs)"
    using sum_weights_nonneg [of fs] by simp
  show ?thesis
    using a b c d by (simp add: sum_weights_count)
qed

theorem C1_score_findings_witness:
  "fst (score_findings [\<lparr>category = ''Urgency Tactics'', description = ''d'',
                         severity = high, evidence = []\<rparr>,
                        \<lparr>category = ''Suspicious Links'', description = ''d'',
                         severity = medium, evidence = []\<rparr>,
                        \<lparr>category = ''Grammar & Style'', description = ''d'',
                         severity = low, evidence = []\<rparr>]) = 65
   \<and> snd (score_findings [\<lparr>category = ''Urgency Tactics'', description = ''d'',
                         severity = high, evidence = []\<rparr>,
                        \<lparr>category = ''Suspicious Links'', description = ''d'',
                         severity = medium, evidence = []\<rparr>,
                        \<lparr>category = ''Grammar & Style'', description = ''d'',
                         severity = low, evidence = []\<rparr>]) = high"
  using C1_score_findings [of "[\<lparr>category = ''Urgency Tactics'', description = ''d'',
                         severity = high, evidence = []\<rparr>,
                        \<lparr>category = ''Suspicious Links'', description = ''d'',
                         severity = medium, evidence = []\<rparr>,
                        \<lparr>category = ''Grammar & Style'', description = ''d'',
                         severity = low, evidence = []\<rparr>]"]
  by (simp add: count_sev_def)

lemma rec_strings_distinct:
  "distinct [rec_report, rec_credentials, rec_hover, rec_verify]"
  by (simp add: rec_report_def rec_credentials_def rec_hover_def rec_verify_def)

text \<open>
  C10. For every risk level, findings list and URL-presence flag the recommendations are
  non-empty and pairwise different; when no rule matches (risk not high, no
  Sensitive Data Request finding, no URL, no Sender Domain Mismatch finding) the list is
  exactly the single generic low-risk caution.
\<close>

theorem C10_build_recommendations:
  "build_recommendations risk fs has_urls \<noteq> []
   \<and> distinct (build_recommendations risk fs has_urls)
   \<and> (risk \<noteq> high
        \<and> \<not> list_ex (\<lambda>f. category f = ''Sensitive Data Request'') fs
        \<and> \<not> has_urls
        \<and> \<not> list_ex (\<lambda>f. category f = ''Sender Domain Mismatch'') fs
       \<longrightarrow> build_recommendations risk fs has_urls = [rec_generic])"
  using rec_strings_distinct
  by (auto simp add: build_recommendations_def Let_def)

theorem C10_build_recommendations_witness:
  "build_recommendations low [] False = [rec_generic]
   \<and> distinct (build_recommendations low [] False)"
  using C10_build_recommendations [of low "[]" False]
  by simp

section \<open>URL extraction\<close>

lemma foldl_keep_first:
  "foldl (\<lambda>keys x. if x \<in> set keys then keys else keys @ [x]) acc xs =
   acc @ filter (\<lambda>y. y \<notin> set acc) (first_occurrences xs)"
proof (induction xs arbitrary: acc)
  case Nil
  show ?case by simp
next
  case (Cons x xs)
  show ?case
  proof (cases "x \<in> set acc")
    case True
    have "filter (\<lambda>y. y \<notin> set acc) (filter (\<lambda>y. y \<noteq> x) (first_occurrences xs)) =
          filter (\<lambda>y. y \<notin> set acc) (first_occurrences xs)"
      using True by (auto intro: filter_cong)
    then show ?thesis using True Cons.IH [of acc] by simp
  next
    case False
    have "filter (\<lambda>y. y \<notin> set (acc @ [x])) (first_occurrences xs) =
          filter (\<lambda>y. y \<notin> set acc) (filter (\<lambda>y. y \<noteq> x) (first_occurrences xs))"
      by (auto intro: filter_cong)
    then show ?thesis using False Cons.IH [of "acc @ [x]"] by simp
  qed
qed

lemma foldl_keep_first_Nil:
  "foldl (\<lambda>keys x. if x \<in> set keys then keys else keys @ [x]) [] xs = first_occurrences xs"
  using foldl_keep_first [of "[]" xs] by simp

lemma dict_fromkeys_first: "dict_fromkeys xs = first_occurrences xs"
  unfolding dict_fromkeys_def by (rule foldl_keep_first_Nil)

lemma collect_step_canonical:
  "collect_step acc m =
   (\<lambda>keys x. if x \<in> set keys then keys else keys @ [x]) acc (canonical_match m)"
  by (simp add: collect_step_def canonical_match_def Let_def)

lemma foldl_collect_step:
  "foldl collect_step acc ms =
   foldl (\<lambda>keys x. if x \<in> set keys then keys else keys @ [x]) acc (map canonical_match ms)"
proof (induction ms arbitrary: acc)
  case Nil
  show ?case by simp
next
  case (Cons m ms)
  show ?case using Cons.IH by (simp add: collect_step_canonical)
qed

lemma set_first_occurrences: "set (first_occurrences xs) = set xs"
  by (induction xs) auto

lemma distinct_first_occurrences: "distinct (first_occurrences xs)"
  by (induction xs) (auto simp: set_first_occurrences)

lemma collect_urls_first:
  "collect_urls payload =
   first_occurrences (urls payload @ map canonical_match (url_findall (body payload)))"
proof -
  have "collect_urls payload =
        foldl (\<lambda>keys x. if x \<in> set keys then keys else keys @ [x])
          (foldl (\<lambda>keys x. if x \<in> set keys then keys else keys @ [x]) [] (urls payload))
          (map canonical_match (url_findall (body payload)))"
    by (simp add: collect_urls_def Let_def foldl_collect_step dict_fromkeys_def)
  also have "\<dots> = foldl (\<lambda>keys x. if x \<in> set keys then keys else keys @ [x]) []
          (urls payload @ map canonical_match (url_findall (body payload)))"
    by simp
  also have "\<dots> = first_occurrences
          (urls payload @ map canonical_match (url_findall (body payload)))"
    by (rule foldl_keep_first_Nil)
  finally show ?thesis .
qed

lemma count_list_distinct_member: "distinct xs \<Longrightarrow> x \<in> set xs \<Longrightarrow> count_list xs x = 1"
  by (induction xs) (auto simp: count_list_0_iff)

text \<open>
  C2 (amended). For every request the candidate-URL sequence is the order-preserving
  deduplication, keeping first occurrences, of the explicit \<open>urls\<close> followed by the body
  matches, where a match beginning with \<open>www.\<close> is compared and stored with \<open>https://\<close>
  in front. The sequence has no duplicates and holds exactly the explicit URLs and the
  canonical matches; so a string given in \<open>urls\<close> that is also the canonical form of a
  body match is one entry.
\<close>

theorem C2_collect_urls:
  "collect_urls payload =
     first_occurrences (urls payload @ map canonical_match (url_findall (body payload)))
   \<and> distinct (collect_urls payload)
   \<and> set (collect_urls payload) =
       set (urls payload) \<union> canonical_match ` set (url_findall (body payload))
   \<and> (\<forall>u m. u \<in> set (urls payload) \<and> m \<in> set (url_findall (body payload)) \<and>
             canonical_match m = u \<longrightarrow> count_list (collect_urls payload) u = 1)"
proof -
  have d: "distinct (collect_urls payload)"
    by (simp add: collect_urls_first distinct_first_occurrences)
  have s: "set (collect_urls payload) =
       set (urls payload) \<union> canonical_match ` set (url_findall (body payload))"
    by (simp add: collect_urls_first set_first_occurrences)
  have c: "\<forall>u m. u \<in> set (urls payload) \<and> m \<in> set (url_findall (body payload)) \<and>
             canonical_match m = u \<longrightarrow> count_list (collect_urls payload) u = 1"
  proof (intro allI impI)
    fix u m
    assume a: "u \<in> set (urls payload) \<and> m \<in> set (url_findall (body payload)) \<and>
             canonical_match m = u"
    then have "u \<in> set (collect_urls payload)" using s by simp
    then show "count_list (collect_urls payload) u = 1"
      using d by (rule count_list_distinct_member [rotated])
  qed
  show ?thesis using collect_urls_first d s c by blast
qed

lemma url_findall_example: "url_findall ''see https://a.io/x now'' = [''https://a.io/x'']"
  by code_simp

lemma canonical_match_example: "canonical_match ''https://a.io/x'' = ''https://a.io/x''"
  by code_simp

theorem C2_collect_urls_witness:
  "collect_urls \<lparr>subject = ''hi'', body = ''see https://a.io/x now'', sender = None,
       sender_name = None, reply_to = None, urls = [''https://a.io/x''], attachments = [],
       headers = None\<rparr> = [''https://a.io/x'']
   \<and> count_list (collect_urls \<lparr>subject = ''hi'', body = ''see https://a.io/x now'',
       sender = None, sender_name = None, reply_to = None, urls = [''https://a.io/x''],
       attachments = [], headers = None\<rparr>) ''https://a.io/x'' = 1"
proof -
  let ?p = "\<lparr>subject = ''hi'', body = ''see https://a.io/x now'',
       sender = None, sender_name = None, reply_to = None, urls = [''https://a.io/x''],
       attachments = [], headers = None\<rparr>"
  note t = C2_collect_urls [of ?p]
  have "collect_urls ?p =
        first_occurrences (urls ?p @ map canonical_match (url_findall (body ?p)))"
    using t by (rule conjunct1)
  then have r: "collect_urls ?p = [''https://a.io/x'']"
    by (simp add: url_findall_example canonical_match_example)
  have h: "''https://a.io/x'' \<in> set (urls ?p) \<and>
           ''https://a.io/x'' \<in> set (url_findall (body ?p)) \<and>
           canonical_match ''https://a.io/x'' = ''https://a.io/x''"
    by (simp add: url_findall_example canonical_match_example)
  have "\<forall>u m. u \<in> set (urls ?p) \<and> m \<in> set (url_findall (body ?p)) \<and>
             canonical_match m = u \<longrightarrow> count_list (collect_urls ?p) u = 1"
    by (rule conjunct2 [OF conjunct2 [OF conjunct2 [OF t]]])
  then have c: "count_list (collect_urls ?p) ''https://a.io/x'' = 1"
    using h by blast
  show ?thesis using r c by (rule conjI)
qed

lemma url_findall_www: "url_findall ''www.example.com'' = [''www.example.com'']"
  by code_simp

lemma www_prefix: "startswith (lower ''www.example.com'') ''www.''"
  by code_simp

text \<open>
  The claim as written fails: the same string \<open>www.example.com\<close> given in \<open>urls\<close> and
  standing in the body gives two entries, because only the body match is prefixed.
\<close>

theorem C2_same_url_counterexample:
  "collect_urls \<lparr>subject = ''hi'', body = ''www.example.com'', sender = None,
       sender_name = None, reply_to = None, urls = [''www.example.com''], attachments = [],
       headers = None\<rparr> = [''www.example.com'', ''https://www.example.com'']
   \<and> length (collect_urls \<lparr>subject = ''hi'', body = ''www.example.com'', sender = None,
       sender_name = None, reply_to = None, urls = [''www.example.com''], attachments = [],
       headers = None\<rparr>) = 2"
  by (simp add: collect_urls_def dict_fromkeys_def collect_step_def Let_def
        url_findall_www www_prefix)

section \<open>The repeated-character tests\<close>

lemma search_dot_then_first: "search_dot_then (x # lit) s \<Longrightarrow> x \<in> set s"
proof (induction s)
  case Nil
  then show ?case by simp
next
  case (Cons c cs)
  show ?case
  proof (cases "startswith cs (x # lit)")
    case True
    then show ?thesis by (cases cs) auto
  next
    case False
    then show ?thesis using Cons by auto
  qed
qed

lemma typosquatting_without_backslash:
  "CHR 0x5C \<notin> set domain \<Longrightarrow>
   has_typosquatting_pattern domain =
     list_ex (\<lambda>pattern. contains domain pattern) suspicious_patterns"
proof -
  assume a: "CHR 0x5C \<notin> set domain"
  have "\<not> search_dot_then [CHR 0x5C, CHR ''1'', CHR ''1'']
           (filter (\<lambda>c. c \<noteq> CHR ''.'') domain)"
  proof
    assume "search_dot_then [CHR 0x5C, CHR ''1'', CHR ''1'']
           (filter (\<lambda>c. c \<noteq> CHR ''.'') domain)"
    then have "CHR 0x5C \<in> set (filter (\<lambda>c. c \<noteq> CHR ''.'') domain)"
      by (rule search_dot_then_first)
    then show False using a by simp
  qed
  then show ?thesis by (simp add: has_typosquatting_pattern_def)
qed

text \<open>
  C8. The claim asks that a domain whose text without dots has three or more consecutive
  identical characters is flagged. The code does not flag \<open>gooogle.com\<close>: its pattern
  looks for a backslash followed by \<open>11\<close>, not for a repeated character.
\<close>

theorem C8_repeated_chars_not_flagged:
  "has_repeat3 (filter (\<lambda>c. c \<noteq> CHR ''.'') ''gooogle.com'')
   \<and> \<not> has_typosquatting_pattern ''gooogle.com''"
  by code_simp

text \<open>
  C9. The claim counts a token with a run of three identical characters as unusual. The
  code does not: \<open>theeere\<close> has the run \<open>eee\<close>, no digit and only two rare pairs (below
  the threshold 3 for its length 7), and is not unusual for \<open>looks_unusual\<close>. A body of
  20 words, 5 of them \<open>theeere\<close>, has an unusual-token ratio of 0.25 by the claim and
  gets no finding from the code.
\<close>

theorem C9_repeated_run_not_unusual:
  "unusual_token_spec ''theeere''
   \<and> \<not> looks_unusual ''theeere''
   \<and> detect_language_anomalies \<lparr>subject = ''hi'',
        body = ''theeere theeere theeere theeere theeere the the the the the the the the the the the the the the the'',
        sender = None, sender_name = None, reply_to = None, urls = [], attachments = [],
        headers = None\<rparr> = []"
  by code_simp

section \<open>Suspicious links\<close>

lemma links_step_fst:
  "fst (links_step env (sev, ev) u) = (if escalates env u then high else sev)"
  by (cases "domain_from_url env u")
     (simp_all add: links_step_def escalates_def truthy_str_def Let_def split: prod.splits)

lemma links_step_snd_mono: "set ev \<subseteq> set (snd (links_step env (sev, ev) u))"
  by (cases "domain_from_url env u")
     (auto simp add: links_step_def truthy_str_def Let_def split: prod.splits)

lemma links_step_snd_high:
  "escalates env u \<Longrightarrow> high_evidence env u \<in> set (snd (links_step env (sev, ev) u))"
  by (cases "domain_from_url env u")
     (auto simp add: links_step_def escalates_def high_evidence_def truthy_str_def Let_def
           split: prod.splits)

lemma links_fold_fst:
  "fst (foldl (links_step env) (sev, ev) us) =
   (if \<exists>u\<in>set us. escalates env u then high else sev)"
proof (induction us arbitrary: sev ev)
  case Nil
  show ?case by simp
next
  case (Cons u us)
  obtain sev' ev' where st: "links_step env (sev, ev) u = (sev', ev')"
    by (cases "links_step env (sev, ev) u")
  have s: "sev' = (if escalates env u then high else sev)"
    using links_step_fst [of env sev ev u] st by simp
  show ?case using Cons.IH [of sev' ev'] st s by simp
qed

lemma links_fold_snd_mono: "set ev \<subseteq> set (snd (foldl (links_step env) (sev, ev) us))"
proof (induction us arbitrary: sev ev)
  case Nil
  show ?case by simp
next
  case (Cons u us)
  obtain sev' ev' where st: "links_step env (sev, ev) u = (sev', ev')"
    by (cases "links_step env (sev, ev) u")
  have "set ev \<subseteq> set ev'"
    using links_step_snd_mono [of ev env sev u] st by simp
  also have "\<dots> \<subseteq> set (snd (foldl (links_step env) (sev', ev') us))"
    by (rule Cons.IH)
  finally show ?case using st by simp
qed

lemma links_fold_snd_high:
  "u \<in> set us \<Longrightarrow> escalates env u \<Longrightarrow>
   high_evidence env u \<in> set (snd (foldl (links_step env) (sev, ev) us))"
proof (induction us arbitrary: sev ev)
  case Nil
  then show ?case by simp
next
  case (Cons v us)
  obtain sev' ev' where st: "links_step env (sev, ev) v = (sev', ev')"
    by (cases "links_step env (sev, ev) v")
  show ?case
  proof (cases "u = v")
    case True
    have "high_evidence env u \<in> set ev'"
      using links_step_snd_high [of env u sev ev] Cons.prems(2) st True by simp
    then show ?thesis
      using links_fold_snd_mono [of ev' env sev' us] st by auto
  next
    case False
    then have "u \<in> set us" using Cons.prems(1) by simp
    then show ?thesis using Cons.IH [of sev' ev'] Cons.prems(2) st by simp
  qed
qed

lemma detect_suspicious_links_finding:
  assumes "detect_suspicious_links env payload us = [f]"
  shows "severity f = fst (foldl (links_step env) (medium, []) us)"
    and "set (snd (foldl (links_step env) (medium, []) us)) \<subseteq> set (evidence f)"
proof -
  obtain sev ev where st: "foldl (links_step env) (medium, []) us = (sev, ev)"
    by (cases "foldl (links_step env) (medium, []) us")
  have ne: "us \<noteq> []"
    using assms by (auto simp: detect_suspicious_links_def)
  have "f = \<lparr>category = ''Suspicious Links'',
              description = ''Potentially malicious URLs detected in message body.'',
              severity = sev,
              evidence = (if length us > 5
                          then ev @ [''Email contains a high number of links ('' @
                                     str_nat (length us) @ '').'']
                          else ev)\<rparr>"
    using assms ne st
    by (simp add: detect_suspicious_links_def Let_def split: if_splits)
  then show "severity f = fst (foldl (links_step env) (medium, []) us)"
    and "set (snd (foldl (links_step env) (medium, []) us)) \<subseteq> set (evidence f)"
    using st by auto
qed

text \<open>
  C3. Whenever the Suspicious Links detector produces a finding, its severity is high if
  some URL contributed IP-literal or typosquat evidence and medium if none did; the
  evidence of each such URL is in the finding, and the escalation is sticky: a URL with
  such evidence anywhere in the list, whatever follows it, makes the severity high.
\<close>

theorem C3_suspicious_links_severity:
  assumes "detect_suspicious_links env payload us = [f]"
  shows "severity f = (if \<exists>u\<in>set us. escalates env u then high else medium)
     \<and> (\<forall>u\<in>set us. escalates env u \<longrightarrow> high_evidence env u \<in> set (evidence f))
     \<and> (\<forall>pre u post. us = pre @ u # post \<and> escalates env u \<longrightarrow> severity f = high)"
proof -
  have a: "severity f = (if \<exists>u\<in>set us. escalates env u then high else medium)"
    using detect_suspicious_links_finding(1) [OF assms] links_fold_fst [of env medium "[]" us]
    by simp
  have b: "\<forall>u\<in>set us. escalates env u \<longrightarrow> high_evidence env u \<in> set (evidence f)"
    using detect_suspicious_links_finding(2) [OF assms]
      links_fold_snd_high [of _ us env medium "[]"] by blast
  have c: "\<forall>pre u post. us = pre @ u # post \<and> escalates env u \<longrightarrow> severity f = high"
    using a by auto
  show ?thesis using a b c by blast
qed

lemma links_example:
  "detect_suspicious_links example_env
     \<lparr>subject = ''hi'', body = ''hello'', sender = None, sender_name = None,
      reply_to = None, urls = [], attachments = [], headers = None\<rparr>
     [''http://10.0.0.1/a'', ''https://example.com/x'', ''http://example.com/y''] =
   [\<lparr>category = ''Suspicious Links'',
     description = ''Potentially malicious URLs detected in message body.'',
     severity = high,
     evidence = [''URL `http://10.0.0.1/a` uses raw IP address.'',
                 ''URL `http://10.0.0.1/a` is not served over HTTPS.'',
                 ''URL `http://example.com/y` is not served over HTTPS.'']\<rparr>]"
  by code_simp

lemma escalates_example: "escalates example_env ''http://10.0.0.1/a''"
  by code_simp

theorem C3_suspicious_links_severity_witness:
  "severity \<lparr>category = ''Suspicious Links'',
     description = ''Potentially malicious URLs detected in message body.'',
     severity = high,
     evidence = [''URL `http://10.0.0.1/a` uses raw IP address.'',
                 ''URL `http://10.0.0.1/a` is not served over HTTPS.'',
                 ''URL `http://example.com/y` is not served over HTTPS.'']\<rparr> =
   (if \<exists>u\<in>set [''http://10.0.0.1/a'', ''https://example.com/x'', ''http://example.com/y''].
         escalates example_env u then high else medium)
   \<and> high_evidence example_env ''http://10.0.0.1/a'' \<in>
       set (evidence \<lparr>category = ''Suspicious Links'',
     description = ''Potentially malicious URLs detected in message body.'',
     severity = high,
     evidence = [''URL `http://10.0.0.1/a` uses raw IP address.'',
                 ''URL `http://10.0.0.1/a` is not served over HTTPS.'',
                 ''URL `http://example.com/y` is not served over HTTPS.'']\<rparr>)"
proof -
  note t = C3_suspicious_links_severity [OF links_example]
  have m: "''http://10.0.0.1/a'' \<in>
           set [''http://10.0.0.1/a'', ''https://example.com/x'', ''http://example.com/y'']"
    by simp
  show ?thesis
    using conjunct1 [OF t] bspec [OF conjunct1 [OF conjunct2 [OF t]] m] escalates_example
    by blast
qed

section \<open>Sensitive data requests\<close>

lemma find_from_first:
  "find_from k s sub = Some j \<Longrightarrow> \<exists>i. j = k + i \<and> first_occurrence_at s sub i"
proof (induction s arbitrary: k)
  case Nil
  then show ?case by (auto simp: first_occurrence_at_def split: if_splits)
next
  case (Cons c cs)
  show ?case
  proof (cases "startswith (c # cs) sub")
    case True
    then have "j = k" using Cons.prems by simp
    moreover have "first_occurrence_at (c # cs) sub 0"
      using True by (simp add: first_occurrence_at_def)
    ultimately show ?thesis by auto
  next
    case False
    then have "find_from (Suc k) cs sub = Some j" using Cons.prems by simp
    then obtain i where i: "j = Suc k + i" "first_occurrence_at cs sub i"
      using Cons.IH by blast
    have "\<forall>n<Suc i. \<not> startswith (drop n (c # cs)) sub"
    proof (intro allI impI)
      fix n assume n: "n < Suc i"
      show "\<not> startswith (drop n (c # cs)) sub"
      proof (cases n)
        case 0
        then show ?thesis using False by simp
      next
        case (Suc m)
        then show ?thesis using n i(2) by (simp add: first_occurrence_at_def)
      qed
    qed
    then have "first_occurrence_at (c # cs) sub (Suc i)"
      using i(2) by (simp add: first_occurrence_at_def)
    then show ?thesis using i(1) by auto
  qed
qed

lemma str_find_first: "str_find s sub = Some i \<Longrightarrow> first_occurrence_at s sub i"
  unfolding str_find_def using find_from_first [of 0 s sub i] by simp

lemma extract_context_fold:
  assumes "\<forall>kw\<in>set kws. str_find (lower bdy) kw \<noteq> None"
  shows "foldl (\<lambda>snippets keyword.
                  case str_find (lower bdy) keyword of
                    None \<Rightarrow> snippets
                  | Some start \<Rightarrow>
                      (let snippet = slice bdy (start - w) (start + length keyword + w)
                       in snippets @ [strip snippet]))
           acc kws =
         acc @ map (\<lambda>kw. strip (slice bdy (the (str_find (lower bdy) kw) - w)
                                   (the (str_find (lower bdy) kw) + length kw + w))) kws"
  using assms
proof (induction kws arbitrary: acc)
  case Nil
  show ?case by simp
next
  case (Cons kw kws)
  obtain start where s: "str_find (lower bdy) kw = Some start"
    using Cons.prems by auto
  have r: "\<forall>kw\<in>set kws. str_find (lower bdy) kw \<noteq> None"
    using Cons.prems by simp
  show ?case
    using Cons.IH [OF r, of "acc @ [strip (slice bdy (start - w) (start + length kw + w))]"] s
    by (simp add: Let_def)
qed

lemma extract_context_hits:
  assumes "\<forall>kw\<in>set kws. contains (lower bdy) kw"
  shows "extract_context bdy kws 40 =
         map (\<lambda>kw. snippet_at bdy kw (the (str_find (lower bdy) kw))) kws"
proof -
  have "\<forall>kw\<in>set kws. str_find (lower bdy) kw \<noteq> None"
    using assms by (simp add: contains_def)
  then show ?thesis
    using extract_context_fold [of kws bdy 40 "[]"]
    by (simp add: extract_context_def extract_context_in_def Let_def snippet_at_def)
qed

lemma sensitive_finding:
  assumes "filter (\<lambda>kw. contains (lower (body p)) kw) (sensitive_order env) \<noteq> []"
  shows "detect_sensitive_requests env p =
     [\<lparr>category = ''Sensitive Data Request'',
       description = ''Email references requests for sensitive or credential information.'',
       severity = high,
       evidence = map (\<lambda>kw. snippet_at (body p) kw (the (str_find (lower (body p)) kw)))
                    (filter (\<lambda>kw. contains (lower (body p)) kw) (sensitive_order env))\<rparr>]"
proof -
  let ?hits = "filter (\<lambda>kw. contains (lower (body p)) kw) (sensitive_order env)"
  have c: "extract_context (body p) ?hits 40 =
           map (\<lambda>kw. snippet_at (body p) kw (the (str_find (lower (body p)) kw))) ?hits"
    by (rule extract_context_hits) simp
  have n: "extract_context (body p) ?hits 40 \<noteq> []"
    unfolding c using assms by simp
  show ?thesis
    unfolding detect_sensitive_requests_def Let_def
    using assms n c by simp
qed

text \<open>
  On the strings of the model, whose lower-casing keeps every character in its place:
  in an environment that iterates the keyword set, a body whose lower-cased text contains
  a keyword of the lexicon gets exactly one finding, of severity high however many
  keywords match; its evidence has one entry per matched keyword, each the trimmed window
  of 40 characters around the first occurrence of a matched keyword, and every matched
  keyword has its entry (so the fall-back to the bare keywords is never taken). Without
  a keyword there is no finding.
\<close>

lemma sensitive_requests_same_length:
  assumes "env_ok env"
  shows "((\<exists>kw\<in>SENSITIVE_KEYWORDS. contains (lower (body p)) kw) \<longrightarrow>
          (\<exists>f. detect_sensitive_requests env p = [f] \<and> severity f = high \<and>
               category f = ''Sensitive Data Request'' \<and>
               length (evidence f) =
                 card {kw \<in> SENSITIVE_KEYWORDS. contains (lower (body p)) kw} \<and>
               (\<forall>e\<in>set (evidence f). \<exists>kw\<in>SENSITIVE_KEYWORDS. \<exists>i.
                   contains (lower (body p)) kw \<and>
                   first_occurrence_at (lower (body p)) kw i \<and> e = snippet_at (body p) kw i) \<and>
               (\<forall>kw\<in>SENSITIVE_KEYWORDS. contains (lower (body p)) kw \<longrightarrow>
                   (\<exists>i. first_occurrence_at (lower (body p)) kw i \<and>
                        snippet_at (body p) kw i \<in> set (evidence f)))))
       \<and> (\<not> (\<exists>kw\<in>SENSITIVE_KEYWORDS. contains (lower (body p)) kw) \<longrightarrow>
          detect_sensitive_requests env p = [])"
proof -
  let ?hits = "filter (\<lambda>kw. contains (lower (body p)) kw) (sensitive_order env)"
  let ?g = "\<lambda>kw. snippet_at (body p) kw (the (str_find (lower (body p)) kw))"
  have so: "set (sensitive_order env) = SENSITIVE_KEYWORDS" "distinct (sensitive_order env)"
    using assms by (simp_all add: env_ok_def)
  have sh: "set ?hits = {kw \<in> SENSITIVE_KEYWORDS. contains (lower (body p)) kw}"
    using so(1) by auto
  have dh: "distinct ?hits" using so(2) by simp
  have fo: "\<And>kw. contains (lower (body p)) kw \<Longrightarrow>
              first_occurrence_at (lower (body p)) kw (the (str_find (lower (body p)) kw))"
  proof -
    fix kw assume "contains (lower (body p)) kw"
    then obtain i where "str_find (lower (body p)) kw = Some i"
      by (auto simp: contains_def)
    then show "first_occurrence_at (lower (body p)) kw (the (str_find (lower (body p)) kw))"
      using str_find_first by simp
  qed
  have pos: "(\<exists>kw\<in>SENSITIVE_KEYWORDS. contains (lower (body p)) kw) \<longrightarrow>
          (\<exists>f. detect_sensitive_requests env p = [f] \<and> severity f = high \<and>
               category f = ''Sensitive Data Request'' \<and>
               length (evidence f) =
                 card {kw \<in> SENSITIVE_KEYWORDS. contains (lower (body p)) kw} \<and>
               (\<forall>e\<in>set (evidence f). \<exists>kw\<in>SENSITIVE_KEYWORDS. \<exists>i.
                   contains (lower (body p)) kw \<and>
                   first_occurrence_at (lower (body p)) kw i \<and> e = snippet_at (body p) kw i) \<and>
               (\<forall>kw\<in>SENSITIVE_KEYWORDS. contains (lower (body p)) kw \<longrightarrow>
                   (\<exists>i. first_occurrence_at (lower (body p)) kw i \<and>
                        snippet_at (body p) kw i \<in> set (evidence f))))"
  proof
    assume ex: "\<exists>kw\<in>SENSITIVE_KEYWORDS. contains (lower (body p)) kw"
    then have ne: "?hits \<noteq> []" using sh by (auto simp: filter_empty_conv)
    let ?f = "\<lparr>category = ''Sensitive Data Request'',
       description = ''Email references requests for sensitive or credential information.'',
       severity = high, evidence = map ?g ?hits\<rparr>"
    have d: "detect_sensitive_requests env p = [?f]"
      by (rule sensitive_finding [OF ne])
    have l: "length (evidence ?f) =
               card {kw \<in> SENSITIVE_KEYWORDS. contains (lower (body p)) kw}"
      using distinct_card [OF dh] sh by simp
    have e1: "\<forall>e\<in>set (evidence ?f). \<exists>kw\<in>SENSITIVE_KEYWORDS. \<exists>i.
                   contains (lower (body p)) kw \<and>
                   first_occurrence_at (lower (body p)) kw i \<and> e = snippet_at (body p) kw i"
    proof
      fix e assume "e \<in> set (evidence ?f)"
      then obtain kw where kw: "kw \<in> set ?hits" "e = ?g kw" by auto
      then have "kw \<in> SENSITIVE_KEYWORDS" "contains (lower (body p)) kw"
        using sh by auto
      then show "\<exists>kw\<in>SENSITIVE_KEYWORDS. \<exists>i.
                   contains (lower (body p)) kw \<and>
                   first_occurrence_at (lower (body p)) kw i \<and> e = snippet_at (body p) kw i"
        using fo kw(2) by blast
    qed
    have e2: "\<forall>kw\<in>SENSITIVE_KEYWORDS. contains (lower (body p)) kw \<longrightarrow>
                   (\<exists>i. first_occurrence_at (lower (body p)) kw i \<and>
                        snippet_at (body p) kw i \<in> set (evidence ?f))"
    proof (intro ballI impI)
      fix kw assume k: "kw \<in> SENSITIVE_KEYWORDS" "contains (lower (body p)) kw"
      then have "kw \<in> set ?hits" using sh by simp
      then have "?g kw \<in> set (evidence ?f)" by simp
      then show "\<exists>i. first_occurrence_at (lower (body p)) kw i \<and>
                        snippet_at (body p) kw i \<in> set (evidence ?f)"
        using fo [OF k(2)] by blast
    qed
    show "\<exists>f. detect_sensitive_requests env p = [f] \<and> severity f = high \<and>
               category f = ''Sensitive Data Request'' \<and>
               length (evidence f) =
                 card {kw \<in> SENSITIVE_KEYWORDS. contains (lower (body p)) kw} \<and>
               (\<forall>e\<in>set (evidence f). \<exists>kw\<in>SENSITIVE_KEYWORDS. \<exists>i.
                   contains (lower (body p)) kw \<and>
                   first_occurrence_at (lower (body p)) kw i \<and> e = snippet_at (body p) kw i) \<and>
               (\<forall>kw\<in>SENSITIVE_KEYWORDS. contains (lower (body p)) kw \<longrightarrow>
                   (\<exists>i. first_occurrence_at (lower (body p)) kw i \<and>
                        snippet_at (body p) kw i \<in> set (evidence f)))"
      apply (rule exI [of _ ?f])
      using d l e1 e2 by simp
  qed
  have neg: "\<not> (\<exists>kw\<in>SENSITIVE_KEYWORDS. contains (lower (body p)) kw) \<longrightarrow>
          detect_sensitive_requests env p = []"
  proof
    assume "\<not> (\<exists>kw\<in>SENSITIVE_KEYWORDS. contains (lower (body p)) kw)"
    then have "?hits = []" using so(1) by (auto simp: filter_empty_conv)
    then show "detect_sensitive_requests env p = []"
      by (simp add: detect_sensitive_requests_def Let_def)
  qed
  show ?thesis using pos neg by (rule conjI)
qed

lemma env_ok_example: "env_ok example_env"
  by (simp add: env_ok_def example_env_def SENSITIVE_KEYWORDS_def URGENT_PHRASES_def)

lemma password_in_example:
  "contains (lower ''Please confirm your password and social security number'') ''password''"
  by code_simp

lemma password_keyword: "''password'' \<in> SENSITIVE_KEYWORDS"
  by (simp add: SENSITIVE_KEYWORDS_def)

lemma sensitive_requests_example:
  "env_ok example_env \<and>
   (\<exists>f. detect_sensitive_requests example_env
          \<lparr>subject = ''hi'',
           body = ''Please confirm your password and social security number'',
           sender = None, sender_name = None, reply_to = None, urls = [],
           attachments = [], headers = None\<rparr> = [f]
        \<and> severity f = high)"
proof -
  let ?p = "\<lparr>subject = ''hi'',
           body = ''Please confirm your password and social security number'',
           sender = None, sender_name = None, reply_to = None, urls = [],
           attachments = [], headers = None\<rparr>"
  have h: "\<exists>kw\<in>SENSITIVE_KEYWORDS. contains (lower (body ?p)) kw"
    using password_in_example password_keyword by auto
  have "\<exists>f. detect_sensitive_requests example_env ?p = [f] \<and> severity f = high"
    using conjunct1 [OF sensitive_requests_same_length [OF env_ok_example, of ?p]] h by blast
  then show ?thesis using env_ok_example by simp
qed

lemma dotted_I_find: "str_find dotted_I_lowered (code_points ''password'') = Some 101"
  by code_simp

lemma dotted_I_window: "slice dotted_I_body (101 - 40) (101 + length (code_points ''password'') + 40) = []"
  by code_simp

text \<open>
  C7. The claim asks that each evidence entry is the trimmed window around the first
  occurrence of a matched keyword. \<open>_extract_context\<close> finds the occurrence in
  \<open>body.lower()\<close> and cuts the window out of \<open>body\<close> at that index, and \<open>str.lower\<close> can
  lengthen a text: U+0130 becomes the two code points U+0069 U+0307. For the body of 50
  characters U+0130 followed by \<open> password\<close>, whose lowered text has \<open>password\<close> at index
  101, the keyword is a hit and the window \<open>body[61:149]\<close> of the 59 characters is empty:
  the one evidence entry is the empty string.
\<close>

theorem C7_window_misses_keyword:
  assumes "lower_fn dotted_I_body = dotted_I_lowered" and "strip_fn [] = []"
  shows "contains (lower_fn dotted_I_body) (code_points ''password'')
     \<and> extract_context_in lower_fn strip_fn dotted_I_body [code_points ''password''] 40 = [[]]"
proof -
  have c: "contains (lower_fn dotted_I_body) (code_points ''password'')"
    unfolding assms(1) contains_def dotted_I_find by simp
  have e: "extract_context_in lower_fn strip_fn dotted_I_body [code_points ''password''] 40 =
           [strip_fn (slice dotted_I_body (101 - 40)
                        (101 + length (code_points ''password'') + 40))]"
    unfolding extract_context_in_def Let_def assms(1) by (simp add: dotted_I_find)
  show ?thesis using c e unfolding dotted_I_window assms(2) by simp
qed

theorem C7_window_misses_keyword_witness:
  "contains dotted_I_lowered (code_points ''password'')
   \<and> extract_context_in (\<lambda>s. dotted_I_lowered) (\<lambda>s. s) dotted_I_body
         [code_points ''password''] 40 = [[]]"
  using C7_window_misses_keyword [of "\<lambda>s. dotted_I_lowered" "\<lambda>s. s"]
  by simp

section \<open>Sender and domain anomalies\<close>

lemma sender_anomalies_shape:
  "detect_sender_anomalies env p us = [] \<or>
   (\<exists>f. detect_sender_anomalies env p us = [f] \<and> category f = ''Sender Domain Mismatch'' \<and>
        evidence f \<noteq> [] \<and> length (evidence f) \<le> 2 \<and>
        (\<forall>e\<in>set (evidence f). (\<exists>sd rd. e = reply_to_evidence sd rd) \<or>
                               (\<exists>sample sd. e = links_evidence sample sd)))"
  unfolding detect_sender_anomalies_def Let_def by auto

lemma sender_anomalies_sender_alone:
  assumes "reply_to p = None" and "\<forall>u\<in>set us. \<not> truthy_str (domain_from_url env u)"
  shows "detect_sender_anomalies env p us = []"
proof -
  have r: "normalize_email env (reply_to p) = None"
    using assms(1) by (simp add: normalize_email_def)
  have t: "truthy_str None = False"
    by (simp add: truthy_str_def)
  have f: "filter (\<lambda>u. truthy_str (domain_from_url env u)) us = []"
    using assms(2) by (simp add: filter_empty_conv)
  show ?thesis
    unfolding detect_sender_anomalies_def Let_def by (simp add: r f t)
qed

lemma foldl_spoofing:
  "foldl (\<lambda>iss (company, legitimate_domains).
            if contains d company \<and> \<not> list_ex (\<lambda>legit. contains d legit) legitimate_domains
            then iss @ [''Possible '' @ company @ '' domain spoofing'']
            else iss) acc xs =
   acc @ concat (map (\<lambda>(company, legitimate_domains).
            if contains d company \<and> \<not> list_ex (\<lambda>legit. contains d legit) legitimate_domains
            then [''Possible '' @ company @ '' domain spoofing''] else []) xs)"
  by (induction xs arbitrary: acc) (auto split: prod.splits)

lemma sender_issues_parts:
  "sender_issues env d =
     (if (if snd (tld_extract env d) \<noteq> [] then ''.'' @ snd (tld_extract env d) else [])
          \<in> set SUSPICIOUS_TLDS
      then [''Suspicious TLD: '' @
            (if snd (tld_extract env d) \<noteq> [] then ''.'' @ snd (tld_extract env d) else [])]
      else []) @
     concat (map (\<lambda>(company, legitimate_domains).
            if contains d company \<and> \<not> list_ex (\<lambda>legit. contains d legit) legitimate_domains
            then [''Possible '' @ company @ '' domain spoofing''] else []) LEGITIMATE_DOMAINS) @
     (if count_list d CHR ''.'' > 3 then [''Excessive subdomains (possible obfuscation)'']
      else []) @
     (if has_digit_run d then [''Domain contains multiple numbers''] else []) @
     (if list_ex (\<lambda>misspell. contains d misspell) common_misspellings
      then [''Likely domain name misspelling''] else [])"
  unfolding sender_issues_def Let_def foldl_spoofing by simp

lemma mem_if_singleton: "(x \<in> set (if b then [s] else [])) = (b \<and> x = s)"
  by auto

lemma mem_concat_spoofing:
  "(x \<in> set (concat (map (\<lambda>(company, legitimate_domains).
            if contains d company \<and> \<not> list_ex (\<lambda>legit. contains d legit) legitimate_domains
            then [''Possible '' @ company @ '' domain spoofing''] else []) xs))) =
   (\<exists>(company, legit)\<in>set xs.
       contains d company \<and> \<not> list_ex (\<lambda>l. contains d l) legit \<and>
       x = ''Possible '' @ company @ '' domain spoofing'')"
  by (induction xs) (auto split: prod.splits)

lemma in_sender_issues:
  "(x \<in> set (sender_issues env d)) =
   (((if snd (tld_extract env d) \<noteq> [] then ''.'' @ snd (tld_extract env d) else [])
       \<in> set SUSPICIOUS_TLDS \<and>
     x = ''Suspicious TLD: '' @
         (if snd (tld_extract env d) \<noteq> [] then ''.'' @ snd (tld_extract env d) else [])) \<or>
    (\<exists>(company, legit)\<in>set LEGITIMATE_DOMAINS.
       contains d company \<and> \<not> list_ex (\<lambda>l. contains d l) legit \<and>
       x = ''Possible '' @ company @ '' domain spoofing'') \<or>
    (count_list d CHR ''.'' > 3 \<and> x = ''Excessive subdomains (possible obfuscation)'') \<or>
    (has_digit_run d \<and> x = ''Domain contains multiple numbers'') \<or>
    (list_ex (\<lambda>m. contains d m) common_misspellings \<and> x = ''Likely domain name misspelling''))"
  unfolding sender_issues_parts set_append Un_iff mem_if_singleton mem_concat_spoofing
  by (rule refl)

lemma legitimate_domains_keys: "distinct (map fst LEGITIMATE_DOMAINS)"
  by (simp add: LEGITIMATE_DOMAINS_def)

lemma legitimate_domains_functional:
  "(c, l) \<in> set LEGITIMATE_DOMAINS \<Longrightarrow> (c, l') \<in> set LEGITIMATE_DOMAINS \<Longrightarrow> l = l'"
  using legitimate_domains_keys by (rule eq_key_imp_eq_value)

lemma sender_issues_tld:
  "(''Suspicious TLD: '' @ t \<in> set (sender_issues env d)) =
   (t = (if snd (tld_extract env d) \<noteq> [] then ''.'' @ snd (tld_extract env d) else []) \<and>
    t \<in> set SUSPICIOUS_TLDS)"
  unfolding in_sender_issues by auto

lemma sender_issues_brand:
  assumes "(company, legit) \<in> set LEGITIMATE_DOMAINS"
  shows "(''Possible '' @ company @ '' domain spoofing'' \<in> set (sender_issues env d)) =
   (contains d company \<and> \<not> list_ex (\<lambda>l. contains d l) legit)"
proof -
  have "(\<exists>(c, l)\<in>set LEGITIMATE_DOMAINS.
           contains d c \<and> \<not> list_ex (\<lambda>l. contains d l) l \<and> company = c) =
        (contains d company \<and> \<not> list_ex (\<lambda>l. contains d l) legit)"
    using assms legitimate_domains_functional by blast
  then show ?thesis unfolding in_sender_issues by simp
qed

lemma sender_issues_dots:
  "(''Excessive subdomains (possible obfuscation)'' \<in> set (sender_issues env d)) =
   (count_list d CHR ''.'' > 3)"
  unfolding in_sender_issues by auto

lemma sender_issues_digits:
  "(''Domain contains multiple numbers'' \<in> set (sender_issues env d)) = has_digit_run d"
  unfolding in_sender_issues by auto

lemma sender_issues_misspelling:
  "(''Likely domain name misspelling'' \<in> set (sender_issues env d)) =
   list_ex (\<lambda>m. contains d m) common_misspellings"
  unfolding in_sender_issues by auto

lemma analyze_sender_issues:
  assumes "sndr \<noteq> []" and "contains sndr ''@''"
  shows "issues (analyze_sender env sndr) = Some (sender_issues env (after_first_at sndr))"
    and "detected (analyze_sender env sndr) = (sender_issues env (after_first_at sndr) \<noteq> [])"
  using assms by (simp_all add: analyze_sender_def Let_def)

text \<open>
  C4 (amended). The detector of the engine, \<open>_detect_sender_anomalies\<close>, records evidence
  only from the reply-to comparison and the URL-domain comparison: it returns no finding
  or one finding whose one or two evidence items are those two messages, and it returns
  no finding when there is no reply-to address and no URL domain, whatever the sender
  domain is. The checks of the sender domain alone are those of the standalone
  \<open>_analyze_sender\<close>: for a sender containing \<open>@\<close> it examines the text after the first
  \<open>@\<close> and records an issue exactly for a suspicious top-level domain of the blocklist,
  for a brand name contained without any of that brand's legitimate domains, for more
  than 3 dots, for a run of 3 or more digits, and for one of the misspelling patterns.
\<close>

theorem C4_sender_checks:
  "(detect_sender_anomalies env p us = [] \<or>
    (\<exists>f. detect_sender_anomalies env p us = [f] \<and> category f = ''Sender Domain Mismatch'' \<and>
         evidence f \<noteq> [] \<and> length (evidence f) \<le> 2 \<and>
         (\<forall>e\<in>set (evidence f). (\<exists>sd rd. e = reply_to_evidence sd rd) \<or>
                                (\<exists>sample sd. e = links_evidence sample sd))))
   \<and> (reply_to p = None \<and> (\<forall>u\<in>set us. \<not> truthy_str (domain_from_url env u)) \<longrightarrow>
        detect_sender_anomalies env p us = [])
   \<and> (sndr \<noteq> [] \<and> contains sndr ''@'' \<longrightarrow>
        (\<exists>iss. issues (analyze_sender env sndr) = Some iss \<and>
          detected (analyze_sender env sndr) = (iss \<noteq> []) \<and>
          ((''Suspicious TLD: '' @ tld_of env (after_first_at sndr) \<in> set iss) =
             (tld_of env (after_first_at sndr) \<in> set SUSPICIOUS_TLDS)) \<and>
          (\<forall>(company, legit)\<in>set LEGITIMATE_DOMAINS.
             (''Possible '' @ company @ '' domain spoofing'' \<in> set iss) =
             (contains (after_first_at sndr) company \<and>
              \<not> list_ex (\<lambda>l. contains (after_first_at sndr) l) legit)) \<and>
          ((''Excessive subdomains (possible obfuscation)'' \<in> set iss) =
             (count_list (after_first_at sndr) CHR ''.'' > 3)) \<and>
          ((''Domain contains multiple numbers'' \<in> set iss) =
             has_digit_run (after_first_at sndr)) \<and>
          ((''Likely domain name misspelling'' \<in> set iss) =
             list_ex (\<lambda>m. contains (after_first_at sndr) m) common_misspellings)))"
proof -
  have b: "reply_to p = None \<and> (\<forall>u\<in>set us. \<not> truthy_str (domain_from_url env u)) \<longrightarrow>
        detect_sender_anomalies env p us = []"
    using sender_anomalies_sender_alone [of p us env] by blast
  have c: "sndr \<noteq> [] \<and> contains sndr ''@'' \<longrightarrow>
        (\<exists>iss. issues (analyze_sender env sndr) = Some iss \<and>
          detected (analyze_sender env sndr) = (iss \<noteq> []) \<and>
          ((''Suspicious TLD: '' @ tld_of env (after_first_at sndr) \<in> set iss) =
             (tld_of env (after_first_at sndr) \<in> set SUSPICIOUS_TLDS)) \<and>
          (\<forall>(company, legit)\<in>set LEGITIMATE_DOMAINS.
             (''Possible '' @ company @ '' domain spoofing'' \<in> set iss) =
             (contains (after_first_at sndr) company \<and>
              \<not> list_ex (\<lambda>l. contains (after_first_at sndr) l) legit)) \<and>
          ((''Excessive subdomains (possible obfuscation)'' \<in> set iss) =
             (count_list (after_first_at sndr) CHR ''.'' > 3)) \<and>
          ((''Domain contains multiple numbers'' \<in> set iss) =
             has_digit_run (after_first_at sndr)) \<and>
          ((''Likely domain name misspelling'' \<in> set iss) =
             list_ex (\<lambda>m. contains (after_first_at sndr) m) common_misspellings))"
  proof
    assume a: "sndr \<noteq> [] \<and> contains sndr ''@''"
    let ?d = "after_first_at sndr"
    let ?iss = "sender_issues env ?d"
    have i1: "issues (analyze_sender env sndr) = Some ?iss"
      using analyze_sender_issues(1) a by blast
    have i2: "detected (analyze_sender env sndr) = (?iss \<noteq> [])"
      using analyze_sender_issues(2) a by blast
    have t: "(''Suspicious TLD: '' @ tld_of env ?d \<in> set ?iss) =
             (tld_of env ?d \<in> set SUSPICIOUS_TLDS)"
      unfolding sender_issues_tld tld_of_def by simp
    have s: "\<forall>(company, legit)\<in>set LEGITIMATE_DOMAINS.
             (''Possible '' @ company @ '' domain spoofing'' \<in> set ?iss) =
             (contains ?d company \<and> \<not> list_ex (\<lambda>l. contains ?d l) legit)"
      using sender_issues_brand by blast
    show "\<exists>iss. issues (analyze_sender env sndr) = Some iss \<and>
          detected (analyze_sender env sndr) = (iss \<noteq> []) \<and>
          ((''Suspicious TLD: '' @ tld_of env ?d \<in> set iss) =
             (tld_of env ?d \<in> set SUSPICIOUS_TLDS)) \<and>
          (\<forall>(company, legit)\<in>set LEGITIMATE_DOMAINS.
             (''Possible '' @ company @ '' domain spoofing'' \<in> set iss) =
             (contains ?d company \<and> \<not> list_ex (\<lambda>l. contains ?d l) legit)) \<and>
          ((''Excessive subdomains (possible obfuscation)'' \<in> set iss) =
             (count_list ?d CHR ''.'' > 3)) \<and>
          ((''Domain contains multiple numbers'' \<in> set iss) = has_digit_run ?d) \<and>
          ((''Likely domain name misspelling'' \<in> set iss) =
             list_ex (\<lambda>m. contains ?d m) common_misspellings)"
      apply (rule exI [of _ ?iss])
      using i1 i2 t s sender_issues_dots [of env ?d] sender_issues_digits [of env ?d]
        sender_issues_misspelling [of env ?d]
      by blast
  qed
  show ?thesis using sender_anomalies_shape [of env p us] b c by blast
qed

lemma example_sender_has_at: "contains ''security@paypa1-alert.xyz'' ''@''"
  by code_simp

lemma example_sender_misspelt:
  "list_ex (\<lambda>m. contains (after_first_at ''security@paypa1-alert.xyz'') m) common_misspellings"
  by code_simp

theorem C4_sender_checks_witness:
  "detect_sender_anomalies example_env
      \<lparr>subject = ''Notice'', body = ''Please verify'',
       sender = Some ''security@paypa1-alert.xyz'', sender_name = None, reply_to = None,
       urls = [], attachments = [], headers = None\<rparr> [] = []
   \<and> (\<exists>iss. issues (analyze_sender example_env ''security@paypa1-alert.xyz'') = Some iss \<and>
            ''Likely domain name misspelling'' \<in> set iss)"
proof -
  let ?p = "\<lparr>subject = ''Notice'', body = ''Please verify'',
       sender = Some ''security@paypa1-alert.xyz'', sender_name = None, reply_to = None,
       urls = [], attachments = [], headers = None\<rparr>"
  note t = C4_sender_checks [of example_env ?p "[]" "''security@paypa1-alert.xyz''"]
  have a: "detect_sender_anomalies example_env ?p [] = []"
    using conjunct1 [OF conjunct2 [OF t]] by simp
  have h: "''security@paypa1-alert.xyz'' \<noteq> [] \<and> contains ''security@paypa1-alert.xyz'' ''@''"
    using example_sender_has_at by simp
  have "\<exists>iss. issues (analyze_sender example_env ''security@paypa1-alert.xyz'') = Some iss \<and>
            ''Likely domain name misspelling'' \<in> set iss"
    using mp [OF conjunct2 [OF conjunct2 [OF t]] h] example_sender_misspelt by blast
  then show ?thesis using a by simp
qed

text \<open>
  The claim as written fails on the engine's detector: the sender
  \<open>security@paypa1-alert.xyz\<close> has a blocklisted top-level domain and a known misspelling
  in its domain, and a request with this sender alone gets no finding, hence no evidence.
\<close>

theorem C4_sender_alone_counterexample:
  "sender_domain_of example_env
      \<lparr>subject = ''Notice'', body = ''Please verify'',
       sender = Some ''security@paypa1-alert.xyz'', sender_name = None, reply_to = None,
       urls = [], attachments = [], headers = None\<rparr> = Some ''paypa1-alert.xyz''
   \<and> tld_of example_env ''paypa1-alert.xyz'' \<in> set SUSPICIOUS_TLDS
   \<and> list_ex (\<lambda>m. contains ''paypa1-alert.xyz'' m) common_misspellings
   \<and> detect_sender_anomalies example_env
      \<lparr>subject = ''Notice'', body = ''Please verify'',
       sender = Some ''security@paypa1-alert.xyz'', sender_name = None, reply_to = None,
       urls = [], attachments = [], headers = None\<rparr>
      (collect_urls \<lparr>subject = ''Notice'', body = ''Please verify'',
       sender = Some ''security@paypa1-alert.xyz'', sender_name = None, reply_to = None,
       urls = [], attachments = [], headers = None\<rparr>) = []"
  by code_simp

text \<open>
  The standalone engine has no test for repeated characters either: a domain with the
  run \<open>aaa\<close> and no digits gets no issue.
\<close>

lemma analyze_sender_repeated_chars:
  "issues (analyze_sender example_env ''bob@baaad.example'') = Some []"
  by code_simp

section \<open>Reputation lookup\<close>

lemma lookup_urls_unavailable:
  "\<not> truthy_str (api_key env) \<Longrightarrow>
   (\<exists>ins. lookup_urls env us = Inr ins \<and> map url ins = us \<and>
          (\<forall>i\<in>set ins. status i = Some ''unavailable''))"
  by (auto simp: lookup_urls_def comp_def)

lemma parse_urlscan_response_url:
  "parse_urlscan_response env u payload = Inr i \<Longrightarrow> url i = u"
  unfolding parse_urlscan_response_def bind_err_def Let_def
  by (auto split: sum.splits if_splits)

lemma lookup_loop_order:
  "lookup_loop env acc us = Inr ins \<Longrightarrow> map url ins = map url acc @ us"
proof (induction us arbitrary: acc)
  case Nil
  then show ?case by simp
next
  case (Cons u us)
  show ?case
  proof (cases "truthy_str (rep_domain_from_url env u)")
    case False
    then show ?thesis using Cons.prems Cons.IH by (auto simp: Let_def)
  next
    case True
    show ?thesis
    proof (cases "http_get env (the (rep_domain_from_url env u))")
      case (HTTPError exc)
      then show ?thesis using True Cons.prems Cons.IH by (auto simp: Let_def)
    next
      case (Response r)
      show ?thesis
      proof (cases r)
        case None
        then show ?thesis using True Response Cons.prems by (simp add: Let_def)
      next
        case (Some payload)
        show ?thesis
        proof (cases "parse_urlscan_response env u payload")
          case (Inl e)
          then show ?thesis using True Response Some Cons.prems by (simp add: Let_def)
        next
          case (Inr i)
          then have "lookup_loop env (acc @ [i]) us = Inr ins"
            using True Response Some Cons.prems by (simp add: Let_def)
          then have "map url ins = map url (acc @ [i]) @ us" by (rule Cons.IH)
          then show ?thesis using parse_urlscan_response_url [OF Inr] by simp
        qed
      qed
    qed
  qed
qed

lemma lookup_urls_order: "lookup_urls env us = Inr ins \<Longrightarrow> map url ins = us"
  using lookup_loop_order [of env "[]" us ins]
  by (auto simp: lookup_urls_def comp_def split: if_splits)

lemma lookup_urls_http_error:
  "lookup_urls flaky_env [''http://10.0.0.1/a'', ''https://example.com/x''] =
   Inr [\<lparr>url = ''http://10.0.0.1/a'', reputation = None, status = Some ''error'',
         details = Some ''urlscan lookup failed: timed out'', insight_findings = []\<rparr>,
        \<lparr>url = ''https://example.com/x'', reputation = Some ''no-data'',
         status = Some ''clean'', details = Some ''No prior scans found for this domain.'',
         insight_findings = []\<rparr>]"
  by code_simp

text \<open>
  C5. The claim asks that the lookup never raises. With an API key configured and a
  response whose body is not JSON, \<open>response.json()\<close> raises outside the \<open>try\<close>: the
  lookup returns no list for the one URL, and the whole analysis ends with the error.
\<close>

theorem C5_lookup_raises:
  "truthy_str (api_key not_json_env)
   \<and> lookup_urls not_json_env [''https://example.com/x''] = Inl JSONDecodeError
   \<and> analyze_email not_json_env
        \<lparr>subject = ''Notice'', body = ''Please read'', sender = None, sender_name = None,
         reply_to = None, urls = [''https://example.com/x''], attachments = [],
         headers = None\<rparr> = Inl JSONDecodeError"
  by code_simp

section \<open>Two runs of the analysis\<close>

lemma env_ok_reordered: "env_ok example_env \<and> env_ok reordered_env"
  by (simp add: env_ok_def reordered_env_def example_env_def SENSITIVE_KEYWORDS_def
        URGENT_PHRASES_def insert_commute)

text \<open>
  C6. The claim asks that two runs on the same request give the same response. The
  evidence of the Sensitive Data Request finding follows the order in which the process
  iterates the set \<open>SENSITIVE_KEYWORDS\<close>; in two processes that iterate it in different
  orders the same request gets the two context snippets in different orders.
\<close>

theorem C6_evidence_order_differs:
  "analyze_email example_env
     \<lparr>subject = ''Notice'',
      body = ''Send your password today to the office desk and then also give us the pin'',
      sender = None, sender_name = None, reply_to = None, urls = [], attachments = [],
      headers = None\<rparr> =
   Inr \<lparr>overall_risk = medium, score = 35,
        findings = [\<lparr>category = ''Sensitive Data Request'',
          description = ''Email references requests for sensitive or credential information.'',
          severity = high,
          evidence = [''Send your password today to the office desk and then also'',
                      ''e office desk and then also give us the pin'']\<rparr>],
        url_insights = [],
        recommendations = [''Never share credentials or personal information via email links.'']\<rparr>
   \<and> analyze_email reordered_env
     \<lparr>subject = ''Notice'',
      body = ''Send your password today to the office desk and then also give us the pin'',
      sender = None, sender_name = None, reply_to = None, urls = [], attachments = [],
      headers = None\<rparr> =
   Inr \<lparr>overall_risk = medium, score = 35,
        findings = [\<lparr>category = ''Sensitive Data Request'',
          description = ''Email references requests for sensitive or credential information.'',
          severity = high,
          evidence = [''e office desk and then also give us the pin'',
                      ''Send your password today to the office desk and then also'']\<rparr>],
        url_insights = [],
        recommendations = [''Never share credentials or personal information via email links.'']\<rparr>
   \<and> analyze_email example_env
     \<lparr>subject = ''Notice'',
      body = ''Send your password today to the office desk and then also give us the pin'',
      sender = None, sender_name = None, reply_to = None, urls = [], attachments = [],
      headers = None\<rparr> \<noteq>
       analyze_email reordered_env
     \<lparr>subject = ''Notice'',
      body = ''Send your password today to the office desk and then also give us the pin'',
      sender = None, sender_name = None, reply_to = None, urls = [], attachments = [],
      headers = None\<rparr>"
proof -
  have a: "analyze_email example_env
     \<lparr>subject = ''Notice'',
      body = ''Send your password today to the office desk and then also give us the pin'',
      sender = None, sender_name = None, reply_to = None, urls = [], attachments = [],
      headers = None\<rparr> =
   Inr \<lparr>overall_risk = medium, score = 35,
        findings = [\<lparr>category = ''Sensitive Data Request'',
          description = ''Email references requests for sensitive or credential information.'',
          severity = high,
          evidence = [''Send your password today to the office desk and then also'',
                      ''e office desk and then also give us the pin'']\<rparr>],
        url_insights = [],
        recommendations = [''Never share credentials or personal information via email links.'']\<rparr>"
    by code_simp
  have b: "analyze_email reordered_env
     \<lparr>subject = ''Notice'',
      body = ''Send your password today to the office desk and then also give us the pin'',
      sender = None, sender_name = None, reply_to = None, urls = [], attachments = [],
      headers = None\<rparr> =
   Inr \<lparr>overall_risk = medium, score = 35,
        findings = [\<lparr>category = ''Sensitive Data Request'',
          description = ''Email references requests for sensitive or credential information.'',
          severity = high,
          evidence = [''e office desk and then also give us the pin'',
                      ''Send your password today to the office desk and then also'']\<rparr>],
        url_insights = [],
        recommendations = [''Never share credentials or personal information via email links.'']\<rparr>"
    by code_simp
  show ?thesis unfolding a b by simp
qed


end
